theory Spec2Isabelle
  imports Main
begin

section \<open>Go values: errors, panics, slices\<close>

text \<open>
  The program is \<^verbatim>\<open>checkProcs.go\<close>. A Go function that returns \<^verbatim>\<open>(T, error)\<close> is modelled by
  a pair whose second component is \<open>None\<close> for the \<^verbatim>\<open>nil\<close> error. A run-time panic
  (a slice expression or an index out of range) is not an error value: no
  \<^verbatim>\<open>if err != nil\<close> of the program sees it, and it ends the program. It is the
  outcome \<open>Panics\<close>.

  \<open>int\<close> is taken to be 64 bits wide (\<open>IntSize\<close>), as on every 64-bit platform.
\<close>

datatype error =
    EOF
  | ErrNotExist
  | ErrOS nat
  | ErrSyntax
  | ErrRange
  | ScanError string

datatype 'a go = Returns 'a | Panics

type_synonym rune = int

definition IntSize :: nat where
  "IntSize = 64"

text \<open>\<^verbatim>\<open>os.IsNotExist(err)\<close>.\<close>

definition IsNotExist :: "error \<Rightarrow> bool" where
  "IsNotExist e = (e = ErrNotExist)"

text \<open>The value of a byte.\<close>

definition byte :: "char \<Rightarrow> int" where
  "byte c = of_char c"

text \<open>
  \<^verbatim>\<open>strings.IndexRune(s, r)\<close> for an ASCII rune \<open>r\<close>, where it is the index of the
  first byte equal to \<open>r\<close>, and \<open>-1\<close> when there is none.
\<close>

fun IndexRune :: "string \<Rightarrow> char \<Rightarrow> int" where
  "IndexRune [] c = - 1"
| "IndexRune (x # xs) c =
     (if x = c then 0
      else (let i = IndexRune xs c in if i < 0 then - 1 else i + 1))"

text \<open>
  The slice expressions \<^verbatim>\<open>s[lo:hi]\<close> and \<^verbatim>\<open>s[lo:]\<close> of a string: they panic unless
  \<open>0 \<le> lo \<le> hi \<le> len(s)\<close>.
\<close>

definition slice :: "string \<Rightarrow> int \<Rightarrow> int \<Rightarrow> string go" where
  "slice s lo hi =
     (if 0 \<le> lo \<and> lo \<le> hi \<and> hi \<le> int (length s)
      then Returns (take (nat (hi - lo)) (drop (nat lo) s))
      else Panics)"

definition slice_from :: "string \<Rightarrow> int \<Rightarrow> string go" where
  "slice_from s lo =
     (if 0 \<le> lo \<and> lo \<le> int (length s) then Returns (drop (nat lo) s) else Panics)"

section \<open>The library functions the program calls\<close>

subsection \<open>\<^verbatim>\<open>unicode/utf8\<close>: decoding a rune\<close>

definition RuneError :: rune where
  "RuneError = 0xFFFD"

text \<open>
  \<^verbatim>\<open>utf8.DecodeRuneInString\<close>: the rune at the head of a string and its width in
  bytes. A byte that starts no well-formed encoding decodes to \<open>RuneError\<close> with
  width 1. The lead byte fixes the size of the encoding and the range the second byte
  must lie in (the library's tables \<^verbatim>\<open>first\<close> and \<^verbatim>\<open>acceptRanges\<close>).
\<close>

fun DecodeRuneInString :: "string \<Rightarrow> rune \<times> nat" where
  "DecodeRuneInString [] = (RuneError, 0)"
| "DecodeRuneInString (c0 # cs) =
     (let s0 = byte c0 in
      if s0 < 0x80 then (s0, 1)
      else if s0 < 0xC2 \<or> 0xF4 < s0 then (RuneError, 1)
      else
        let sz = (if s0 < 0xE0 then 2 else if s0 < 0xF0 then 3 else (4::nat));
            lo = (if s0 = 0xE0 then 0xA0 else if s0 = 0xF0 then 0x90 else 0x80);
            hi = (if s0 = 0xED then 0x9F else if s0 = 0xF4 then 0x8F else 0xBF)
        in
          if Suc (length cs) < sz then (RuneError, 1)
          else
            let s1 = byte (cs ! 0) in
            if s1 < lo \<or> hi < s1 then (RuneError, 1)
            else if sz \<le> 2 then ((s0 mod 32) * 64 + s1 mod 64, 2)
            else
              let s2 = byte (cs ! 1) in
              if s2 < 0x80 \<or> 0xBF < s2 then (RuneError, 1)
              else if sz \<le> 3 then ((s0 mod 16) * 4096 + (s1 mod 64) * 64 + s2 mod 64, 3)
              else
                let s3 = byte (cs ! 2) in
                if s3 < 0x80 \<or> 0xBF < s3 then (RuneError, 1)
                else ((s0 mod 8) * 262144 + (s1 mod 64) * 4096 + (s2 mod 64) * 64
                        + s3 mod 64, 4))"

text \<open>
  The runes a scanner reads from a string, one \<^verbatim>\<open>ReadRune\<close> after the other, until the
  input ends.
\<close>

function runes :: "string \<Rightarrow> rune list" where
  "runes s =
     (if s = [] then []
      else (case DecodeRuneInString s of (r, w) \<Rightarrow> r # runes (drop w s)))"
  by pat_completeness auto
termination
  by (relation "measure length")
     (auto simp: neq_Nil_conv Let_def split: if_splits)

declare runes.simps [simp del]

subsection \<open>\<^verbatim>\<open>strconv\<close>: \<^verbatim>\<open>ParseInt\<close> in base 10\<close>

text \<open>
  The loop of \<^verbatim>\<open>strconv.ParseUint(s, 10, bitSize)\<close>: every byte must be a decimal digit
  (a syntax error otherwise), and the value must stay at most \<open>maxVal\<close> (a range error
  otherwise, returned at once).
\<close>

fun ParseUint_loop :: "string \<Rightarrow> int \<Rightarrow> int \<Rightarrow> error + int" where
  "ParseUint_loop [] maxVal n = Inr n"
| "ParseUint_loop (c # cs) maxVal n =
     (if byte c < byte CHR ''0'' \<or> byte CHR ''9'' < byte c then Inl ErrSyntax
      else if maxVal < n * 10 + (byte c - byte CHR ''0'') then Inl ErrRange
      else ParseUint_loop cs maxVal (n * 10 + (byte c - byte CHR ''0'')))"

definition ParseUint :: "string \<Rightarrow> nat \<Rightarrow> error + int" where
  "ParseUint s bitSize =
     (if s = [] then Inl ErrSyntax
      else ParseUint_loop s (2 ^ (if bitSize = 0 then IntSize else bitSize) - 1) 0)"

text \<open>
  \<^verbatim>\<open>strconv.ParseInt(s, 10, bitSize)\<close>: an optional sign, then \<^verbatim>\<open>ParseUint\<close>, then the
  range of a signed integer of \<open>bitSize\<close> bits (\<open>IntSize\<close> when \<open>bitSize\<close> is 0).
\<close>

definition ParseInt :: "string \<Rightarrow> nat \<Rightarrow> error + int" where
  "ParseInt s bitSize =
     (case s of
        [] \<Rightarrow> Inl ErrSyntax
      | c # cs \<Rightarrow>
          (let neg = (c = CHR ''-'');
               s' = (if c = CHR ''+'' \<or> c = CHR ''-'' then cs else s);
               cutoff = (2::int) ^ ((if bitSize = 0 then IntSize else bitSize) - 1)
           in case ParseUint s' bitSize of
                Inl ErrSyntax \<Rightarrow> Inl ErrSyntax
              | Inl e \<Rightarrow> Inl ErrRange
              | Inr un \<Rightarrow>
                  if \<not> neg \<and> cutoff \<le> un then Inl ErrRange
                  else if neg \<and> cutoff < un then Inl ErrRange
                  else Inr (if neg then - un else un)))"

subsection \<open>\<^verbatim>\<open>fmt\<close>: scanning with the format \<^verbatim>\<open>"%c %d %d %d"\<close>\<close>

text \<open>
  \<^verbatim>\<open>fmt.Sscanf\<close> reads its input rune by rune (a \<^verbatim>\<open>rune\<close> is an \<^verbatim>\<open>int32\<close>); a scanner's
  state is the list of runes not yet read (\<^verbatim>\<open>UnreadRune\<close> puts the last one back), and
  the end of the input is the empty list. A scanning error ends the call and becomes its
  error result. The functions below follow \<^verbatim>\<open>fmt/scan.go\<close> of the current Go releases,
  specialised to the one format and the operand types the program uses. The scanner's
  bound on the number of runes it reads (\<open>2\<^sup>3\<^sup>0\<close>, far beyond the size of a status
  record) is left out.
\<close>

definition isSpace :: "rune \<Rightarrow> bool" where
  "isSpace r =
     ((0x09 \<le> r \<and> r \<le> 0x0D) \<or> r = 0x20 \<or> r = 0x85 \<or> r = 0xA0 \<or> r = 0x1680
      \<or> (0x2000 \<le> r \<and> r \<le> 0x200A) \<or> r = 0x2028 \<or> r = 0x2029 \<or> r = 0x202F
      \<or> r = 0x205F \<or> r = 0x3000)"

definition isDigit :: "rune \<Rightarrow> bool" where
  "isDigit r = (0x30 \<le> r \<and> r \<le> 0x39)"

definition isSign :: "rune \<Rightarrow> bool" where
  "isSign r = (r = 0x2B \<or> r = 0x2D)"

text \<open>
  \<^verbatim>\<open>SkipSpace\<close>, for \<^verbatim>\<open>Sscanf\<close> (where a newline is not a space): it skips spaces and
  carriage returns, stops before the first other rune, and fails on a newline.
\<close>

fun SkipSpace :: "rune list \<Rightarrow> error + rune list" where
  "SkipSpace [] = Inr []"
| "SkipSpace (r # rest) =
     (if r = 0x0D \<and> (case rest of [] \<Rightarrow> False | r' # _ \<Rightarrow> r' = 0x0A) then SkipSpace rest
      else if r = 0x0A then Inl (ScanError ''unexpected newline'')
      else if \<not> isSpace r then Inr (r # rest)
      else SkipSpace rest)"

text \<open>
  A space of the format that stands alone (\<^verbatim>\<open>advance\<close>): the input must be at its end
  or continue with a space that is not a newline; the spaces that follow, up to a
  newline, are consumed.
\<close>

definition advance_space :: "rune list \<Rightarrow> error + rune list" where
  "advance_space s =
     (case s of
        [] \<Rightarrow> Inr []
      | r # rest \<Rightarrow>
          if \<not> isSpace r then Inl (ScanError ''expected space in input to match format'')
          else if r = 0x0A then Inl (ScanError ''newline in input does not match format'')
          else Inr (dropWhile (\<lambda>r. isSpace r \<and> r \<noteq> 0x0A) s))"

text \<open>
  The verb \<^verbatim>\<open>%c\<close> into a \<^verbatim>\<open>*rune\<close> (\<^verbatim>\<open>scanRune\<close>): the next rune, whatever it is;
  \<^verbatim>\<open>io.EOF\<close> at the end of the input.
\<close>

definition scanRune :: "rune list \<Rightarrow> error + (rune \<times> rune list)" where
  "scanRune s = (case s of [] \<Rightarrow> Inl EOF | r # rest \<Rightarrow> Inr (r, rest))"

text \<open>
  The verb \<^verbatim>\<open>%d\<close> into an \<^verbatim>\<open>*int\<close> (\<^verbatim>\<open>scanInt\<close>): skip spaces, accept one sign, then
  at least one decimal digit (\<^verbatim>\<open>scanNumber\<close>), and convert the token with
  \<^verbatim>\<open>strconv.ParseInt(tok, 10, 64)\<close>.
\<close>

definition scanInt :: "rune list \<Rightarrow> error + (int \<times> rune list)" where
  "scanInt s0 =
     (case SkipSpace s0 of
        Inl e \<Rightarrow> Inl e
      | Inr s1 \<Rightarrow>
          (case s1 of
             [] \<Rightarrow> Inl EOF
           | r # rest \<Rightarrow>
               (let sgn = (if isSign r then [r] else []);
                    s2 = (if isSign r then rest else s1)
                in if s2 = [] then Inl EOF
                   else if takeWhile isDigit s2 = [] then Inl (ScanError ''expected integer'')
                   else
                     (case ParseInt (map char_of (sgn @ takeWhile isDigit s2)) 64 of
                        Inl e \<Rightarrow> Inl e
                      | Inr i \<Rightarrow> Inr (i, dropWhile isDigit s2)))))"

text \<open>
  A verb \<^verbatim>\<open>%d\<close> of the format, as \<^verbatim>\<open>doScanf\<close> runs it: \<^verbatim>\<open>SkipSpace\<close> first (every verb
  but \<^verbatim>\<open>%c\<close>), then \<^verbatim>\<open>scanOne\<close>.
\<close>

definition verb_d :: "rune list \<Rightarrow> error + (int \<times> rune list)" where
  "verb_d s = (case SkipSpace s of Inl e \<Rightarrow> Inl e | Inr s' \<Rightarrow> scanInt s')"

section \<open>The process record and its parser\<close>

record UnixProcess =
  pid :: int
  ppid :: int
  state :: rune
  pgrp :: int
  sid :: int
  binary :: string

text \<open>
  \<^verbatim>\<open>fmt.Sscanf(data, "%c %d %d %d", &p.state, &p.ppid, &p.pgrp, &p.sid)\<close>: the fields
  are assigned one after the other, so a scan that fails leaves the earlier ones
  assigned. The count of scanned items, which the program drops, is left out.
\<close>

definition Sscanf :: "string \<Rightarrow> UnixProcess \<Rightarrow> UnixProcess \<times> error option" where
  "Sscanf data p =
     (case scanRune (runes data) of
        Inl e \<Rightarrow> (p, Some e)
      | Inr (c, s1) \<Rightarrow>
     (case advance_space s1 of
        Inl e \<Rightarrow> (p\<lparr>state := c\<rparr>, Some e)
      | Inr s2 \<Rightarrow>
     (case verb_d s2 of
        Inl e \<Rightarrow> (p\<lparr>state := c\<rparr>, Some e)
      | Inr (i, s3) \<Rightarrow>
     (case advance_space s3 of
        Inl e \<Rightarrow> (p\<lparr>state := c, ppid := i\<rparr>, Some e)
      | Inr s4 \<Rightarrow>
     (case verb_d s4 of
        Inl e \<Rightarrow> (p\<lparr>state := c, ppid := i\<rparr>, Some e)
      | Inr (j, s5) \<Rightarrow>
     (case advance_space s5 of
        Inl e \<Rightarrow> (p\<lparr>state := c, ppid := i, pgrp := j\<rparr>, Some e)
      | Inr s6 \<Rightarrow>
     (case verb_d s6 of
        Inl e \<Rightarrow> (p\<lparr>state := c, ppid := i, pgrp := j\<rparr>, Some e)
      | Inr (k, s7) \<Rightarrow>
          (p\<lparr>state := c, ppid := i, pgrp := j, sid := k\<rparr>, None))))))))"

text \<open>
  The body of \<^verbatim>\<open>Refresh\<close> after the status file was read (lines 129 to 148):
  \<^verbatim>\<open>binStart\<close> is one past the first \<^verbatim>\<open>'('\<close> (0 when there is none), \<^verbatim>\<open>binEnd\<close> the offset
  of the first \<^verbatim>\<open>')'\<close> from there (\<open>-1\<close> when there is none); the name is
  \<^verbatim>\<open>data[binStart : binStart+binEnd]\<close> and the scan runs on
  \<^verbatim>\<open>data[binStart+binEnd+2:]\<close>.
\<close>

definition Refresh_data :: "string \<Rightarrow> UnixProcess \<Rightarrow> (UnixProcess \<times> error option) go" where
  "Refresh_data data p =
     (let binStart = IndexRune data CHR ''('' + 1 in
      case slice_from data binStart of
        Panics \<Rightarrow> Panics
      | Returns after \<Rightarrow>
          (let binEnd = IndexRune after CHR '')'' in
           case slice data binStart (binStart + binEnd) of
             Panics \<Rightarrow> Panics
           | Returns name \<Rightarrow>
               (case slice_from data (binStart + binEnd + 2) of
                  Panics \<Rightarrow> Panics
                | Returns rest \<Rightarrow> Returns (Sscanf rest (p\<lparr>binary := name\<rparr>)))))"

section \<open>The process registry, as the program reads it\<close>

text \<open>
  What the operating system answers is a parameter of the model:
  \<^item> \<open>Open_proc\<close>: \<^verbatim>\<open>os.Open("/proc")\<close>, an error or a directory handle. The handle is
    the list of the results that the successive calls \<^verbatim>\<open>d.Readdir(10)\<close> return, each
    a batch of entries and an error; after the last one the directory is at its end
    (\<^verbatim>\<open>io.EOF\<close>);
  \<^item> \<open>Stat_proc n\<close>: the error of \<^verbatim>\<open>os.Stat("/proc/n")\<close>;
  \<^item> \<open>ReadFile_stat n\<close>: \<^verbatim>\<open>ioutil.ReadFile("/proc/n/stat")\<close>.
  The three are independent, as a process may vanish between two calls.
\<close>

record FileInfo =
  Name :: string
  IsDir :: bool

type_synonym readdir = "FileInfo list \<times> error option"

record procfs =
  Open_proc :: "error + readdir list"
  Stat_proc :: "int \<Rightarrow> error option"
  ReadFile_stat :: "int \<Rightarrow> error + string"

definition Refresh :: "procfs \<Rightarrow> UnixProcess \<Rightarrow> (UnixProcess \<times> error option) go" where
  "Refresh fs p =
     (case ReadFile_stat fs (pid p) of
        Inl err \<Rightarrow> Returns (p, Some err)
      | Inr data \<Rightarrow> Refresh_data data p)"

text \<open>
  \<^verbatim>\<open>newUnixProcess\<close> returns the record and the error of \<^verbatim>\<open>Refresh\<close> together; the
  other fields of \<^verbatim>\<open>&UnixProcess{pid: pid}\<close> start at their zero values.
\<close>

definition newUnixProcess :: "procfs \<Rightarrow> int \<Rightarrow> (UnixProcess \<times> error option) go" where
  "newUnixProcess fs n =
     Refresh fs \<lparr>pid = n, ppid = 0, state = 0, pgrp = 0, sid = 0, binary = []\<rparr>"

text \<open>
  \<^verbatim>\<open>findProcess\<close> (and \<^verbatim>\<open>FindProcess\<close>, which only calls it). The \<^verbatim>\<open>Process\<close> it returns
  is \<open>None\<close> for \<^verbatim>\<open>nil\<close>; what \<^verbatim>\<open>newUnixProcess\<close> returns is never \<^verbatim>\<open>nil\<close>.
\<close>

definition findProcess :: "procfs \<Rightarrow> int \<Rightarrow> (UnixProcess option \<times> error option) go" where
  "findProcess fs n =
     (case Stat_proc fs n of
        Some err \<Rightarrow>
          if IsNotExist err then Returns (None, None) else Returns (None, Some err)
      | None \<Rightarrow>
          (case newUnixProcess fs n of
             Panics \<Rightarrow> Panics
           | Returns (p, err) \<Rightarrow> Returns (Some p, err)))"

definition FindProcess :: "procfs \<Rightarrow> int \<Rightarrow> (UnixProcess option \<times> error option) go" where
  "FindProcess fs n = findProcess fs n"

text \<open>
  The inner loop of \<^verbatim>\<open>processes\<close> over one batch (lines 175 to 201). \<^verbatim>\<open>name[0]\<close>
  panics on an empty name.
\<close>

fun range_fis :: "procfs \<Rightarrow> FileInfo list \<Rightarrow> UnixProcess list \<Rightarrow> UnixProcess list go" where
  "range_fis fs [] results = Returns results"
| "range_fis fs (fi # fis) results =
     (if \<not> IsDir fi then range_fis fs fis results
      else
        (case Name fi of
           [] \<Rightarrow> Panics
         | c # _ \<Rightarrow>
             if byte c < byte CHR ''0'' \<or> byte CHR ''9'' < byte c then range_fis fs fis results
             else
               (case ParseInt (Name fi) 0 of
                  Inl err \<Rightarrow> range_fis fs fis results
                | Inr n \<Rightarrow>
                    (case newUnixProcess fs n of
                       Panics \<Rightarrow> Panics
                     | Returns (p, Some err) \<Rightarrow> range_fis fs fis results
                     | Returns (p, None) \<Rightarrow> range_fis fs fis (results @ [p])))))"

text \<open>
  The outer loop (lines 160 to 202), one \<^verbatim>\<open>d.Readdir(10)\<close> per round: \<^verbatim>\<open>io.EOF\<close> ends
  it, any other error returns \<^verbatim>\<open>nil, err\<close>.
\<close>

fun readdir_loop ::
  "procfs \<Rightarrow> readdir list \<Rightarrow> UnixProcess list \<Rightarrow> (UnixProcess list \<times> error option) go" where
  "readdir_loop fs [] results = Returns (results, None)"
| "readdir_loop fs ((fis, err) # d) results =
     (if err = Some EOF then Returns (results, None)
      else if err \<noteq> None then Returns ([], err)
      else
        (case range_fis fs fis results of
           Panics \<Rightarrow> Panics
         | Returns results' \<Rightarrow> readdir_loop fs d results'))"

definition processes :: "procfs \<Rightarrow> (UnixProcess list \<times> error option) go" where
  "processes fs =
     (case Open_proc fs of
        Inl err \<Rightarrow> Returns ([], Some err)
      | Inr d \<Rightarrow> readdir_loop fs d [])"

definition Processes :: "procfs \<Rightarrow> (UnixProcess list \<times> error option) go" where
  "Processes fs = processes fs"

section \<open>The command\<close>

definition OK :: int where
  "OK = 0"

definition WARNING :: int where
  "WARNING = 1"

definition CRITICAL :: int where
  "CRITICAL = 2"

definition UNKNOWN :: int where
  "UNKNOWN = 3"

text \<open>
  What the program prints is left out; \<^verbatim>\<open>os.Exit(code)\<close> is the value \<open>code\<close>.
  \<^verbatim>\<open>help\<close> prints the usage and exits with \<^verbatim>\<open>UNKNOWN\<close>: \<open>help_exit\<close> is that code.
\<close>

definition help_exit :: int where
  "help_exit = UNKNOWN"

text \<open>
  \<^verbatim>\<open>Command\<close>: \<open>Inl code\<close> when \<^verbatim>\<open>help\<close> ended the program, \<open>Inr\<close> of its three results
  otherwise.
\<close>

definition Command ::
  "string list \<Rightarrow> procfs \<Rightarrow> (int + UnixProcess list \<times> string \<times> error option) go" where
  "Command args fs =
     (if length args \<noteq> 3 then Returns (Inl help_exit)
      else if args ! 1 \<noteq> ''-c'' then Returns (Inl help_exit)
      else if args ! 2 = [] then Returns (Inl help_exit)
      else
        (case Processes fs of
           Panics \<Rightarrow> Panics
         | Returns (procs, Some err) \<Rightarrow> Returns (Inr ([], [], Some err))
         | Returns (procs, None) \<Rightarrow> Returns (Inr (procs, args ! 2, None))))"

text \<open>The loop of \<^verbatim>\<open>main\<close> over the snapshot: the first match exits with \<^verbatim>\<open>OK\<close>.\<close>

fun main_range :: "UnixProcess list \<Rightarrow> string \<Rightarrow> int" where
  "main_range [] command = CRITICAL"
| "main_range (i # run) command =
     (if binary i = command \<and> ppid i = 1 then OK else main_range run command)"

definition main :: "string list \<Rightarrow> procfs \<Rightarrow> int go" where
  "main args fs =
     (case Command args fs of
        Panics \<Rightarrow> Panics
      | Returns (Inl code) \<Rightarrow> Returns code
      | Returns (Inr (run, command, Some err)) \<Rightarrow> Returns UNKNOWN
      | Returns (Inr (run, command, None)) \<Rightarrow> Returns (main_range run command))"

section \<open>Notions used to state the properties\<close>

text \<open>
  None of the definitions of this section is part of the program; they name what the
  statements below speak about.
\<close>

text \<open>
  The entries a directory handle delivers before its listing ends, and the error (other
  than \<^verbatim>\<open>io.EOF\<close>) that ends it, if one does.
\<close>

fun listed :: "readdir list \<Rightarrow> FileInfo list" where
  "listed [] = []"
| "listed ((fis, err) # d) = (if err = None then fis @ listed d else [])"

fun listing_error :: "readdir list \<Rightarrow> error option" where
  "listing_error [] = None"
| "listing_error ((fis, err) # d) =
     (if err = None then listing_error d else if err = Some EOF then None else err)"

text \<open>A decimal digit, and the number a string of decimal digits denotes.\<close>

definition digit_byte :: "char \<Rightarrow> bool" where
  "digit_byte c = (byte CHR ''0'' \<le> byte c \<and> byte c \<le> byte CHR ''9'')"

definition decimal :: "string \<Rightarrow> int" where
  "decimal s = foldl (\<lambda>n c. n * 10 + (byte c - byte CHR ''0'')) 0 s"

text \<open>
  The decimal text of an integer, as the kernel writes the numbers of a status record
  (and as \<^verbatim>\<open>strconv.Itoa\<close> does): no leading zero, a minus sign for a negative number.
\<close>

fun digits :: "nat \<Rightarrow> string" where
  "digits n =
     (if n < 10 then [char_of (48 + n)]
      else digits (n div 10) @ [char_of (48 + n mod 10)])"

definition Itoa :: "int \<Rightarrow> string" where
  "Itoa i = (if i < 0 then CHR ''-'' # digits (nat (- i)) else digits (nat i))"

text \<open>The values of a 64-bit \<^verbatim>\<open>int\<close>.\<close>

definition int64 :: "int \<Rightarrow> bool" where
  "int64 i = (- (2 ^ 63) \<le> i \<and> i < 2 ^ 63)"

text \<open>
  What may follow the last number that is scanned: nothing, or text that starts with an
  ASCII character other than a digit (a space, when more fields follow).
\<close>

definition field_end :: "string \<Rightarrow> bool" where
  "field_end trail =
     (case trail of [] \<Rightarrow> True | c # _ \<Rightarrow> byte c < 0x80 \<and> \<not> isDigit (byte c))"

text \<open>
  The text that \<^verbatim>\<open>"%c %d %d %d"\<close> accepts, as runes. A blank is a space other than a
  newline; a token is an optional sign followed by decimal digits, at least one; a number
  is a token whose value lies in the range of \<^verbatim>\<open>int\<close>; a number ends where the text ends
  or goes on with something other than a digit.
\<close>

definition blank :: "rune \<Rightarrow> bool" where
  "blank r = (isSpace r \<and> r \<noteq> 0x0A)"

definition blanks :: "rune list \<Rightarrow> bool" where
  "blanks b = (b \<noteq> [] \<and> list_all blank b)"

definition digits_value :: "rune list \<Rightarrow> int" where
  "digits_value ds = foldl (\<lambda>n r. n * 10 + (r - 0x30)) 0 ds"

definition number_value :: "rune list \<Rightarrow> int" where
  "number_value t =
     (case t of
        [] \<Rightarrow> 0
      | r # ds \<Rightarrow>
          if r = 0x2D then - digits_value ds
          else if r = 0x2B then digits_value ds
          else digits_value t)"

definition token :: "rune list \<Rightarrow> bool" where
  "token t =
     (case t of
        [] \<Rightarrow> False
      | r # ds \<Rightarrow> if isSign r then ds \<noteq> [] \<and> list_all isDigit ds else list_all isDigit t)"

definition number :: "rune list \<Rightarrow> bool" where
  "number t = (token t \<and> int64 (number_value t))"

definition number_end :: "rune list \<Rightarrow> bool" where
  "number_end s = (case s of [] \<Rightarrow> True | r # _ \<Rightarrow> \<not> isDigit r)"

text \<open>
  \<open>fields rs c i j k\<close>: the runes \<open>rs\<close> are the character \<open>c\<close> and then three numbers of the
  values \<open>i\<close>, \<open>j\<close> and \<open>k\<close>, each after one or more blanks; the third number ends, and
  what follows it is arbitrary.
\<close>

abbreviation fields :: "rune list \<Rightarrow> rune \<Rightarrow> int \<Rightarrow> int \<Rightarrow> int \<Rightarrow> bool" where
  "fields rs c i j k \<equiv>
     \<exists>b1 n1 b2 n2 b3 n3 trail.
        rs = c # b1 @ n1 @ b2 @ n2 @ b3 @ n3 @ trail \<and>
        blanks b1 \<and> number n1 \<and> number_value n1 = i \<and>
        blanks b2 \<and> number n2 \<and> number_value n2 = j \<and>
        blanks b3 \<and> number n3 \<and> number_value n3 = k \<and>
        number_end trail"

text \<open>
  A registry for examples: one batch of entries (name, is a directory), then the error
  \<open>fin\<close> of the call that ends the listing; the status files are given by identifier,
  and an identifier without a file does not exist.
\<close>

definition fixture :: "(string \<times> bool) list \<Rightarrow> error \<Rightarrow> (int \<times> string) list \<Rightarrow> procfs" where
  "fixture entries fin files =
     \<lparr>Open_proc =
        Inr [(map (\<lambda>(n, d). \<lparr>Name = n, IsDir = d\<rparr>) entries, None), ([], Some fin)],
      Stat_proc = (\<lambda>n. case map_of files n of None \<Rightarrow> Some ErrNotExist | Some text \<Rightarrow> None),
      ReadFile_stat =
        (\<lambda>n. case map_of files n of None \<Rightarrow> Inl ErrNotExist | Some text \<Rightarrow> Inr text)\<rparr>"

text \<open>
  The registry \<^verbatim>\<open>{"1", "2", "self", "42abc", "300"}\<close> with the processes init, kthreadd
  and sshd; \<open>d1\<close> and \<open>d2\<close> say whether \<^verbatim>\<open>self\<close> and \<^verbatim>\<open>42abc\<close> are directories.
\<close>

definition scenario :: "bool \<Rightarrow> bool \<Rightarrow> procfs" where
  "scenario d1 d2 =
     fixture
       [(''1'', True), (''2'', True), (''self'', d1), (''42abc'', d2), (''300'', True)]
       EOF
       [(1, ''1 (init) S 0 1 1 0 -1 4194560 7314''),
        (2, ''2 (kthreadd) S 0 0 0 0 -1 2129984 0''),
        (300, ''300 (sshd) S 1 300 300 0 -1 4194560 1024'')]"

text \<open>
  A status record in the documented format: the identifier, the name in parentheses, the
  state character, then the parent, group and session numbers, separated by single
  spaces.
\<close>

definition render :: "int \<Rightarrow> string \<Rightarrow> char \<Rightarrow> int \<Rightarrow> int \<Rightarrow> int \<Rightarrow> string" where
  "render n name st a b c =
     Itoa n @ '' ('' @ name @ '') '' @ [st] @ '' '' @ Itoa a @ '' '' @ Itoa b @ '' '' @ Itoa c"

declare digits.simps [simp del]

section \<open>Facts about the library functions\<close>

lemma IndexRune_notin: "c \<notin> set xs \<Longrightarrow> IndexRune xs c = - 1"
  by (induction xs) auto

lemma IndexRune_first: "c \<notin> set pre \<Longrightarrow> IndexRune (pre @ c # rest) c = int (length pre)"
  by (induction pre) (auto simp: Let_def)

lemma runes_Nil: "runes [] = []"
  by (subst runes.simps) simp

lemma runes_ascii_Cons: "byte c < 0x80 \<Longrightarrow> runes (c # cs) = byte c # runes cs"
  by (subst runes.simps) simp

lemma runes_ascii_append:
  "\<forall>c\<in>set xs. byte c < 0x80 \<Longrightarrow> runes (xs @ ys) = map byte xs @ runes ys"
  by (induction xs) (simp_all add: runes_ascii_Cons)

lemma byte_nonneg: "0 \<le> byte c"
  using of_nat_of_char [where ?'a = int, of c, symmetric] by (simp add: byte_def)

lemma byte_char_of_digit: "d < 10 \<Longrightarrow> byte (char_of (48 + d :: nat)) = 48 + int d"
proof -
  assume d: "d < 10"
  have "byte (char_of (48 + d)) = int (of_char (char_of (48 + d)))"
    unfolding byte_def by (rule of_nat_of_char [symmetric])
  also have "\<dots> = int ((48 + d) mod 256)"
    by simp
  also have "\<dots> = 48 + int d"
    using d by simp
  finally show ?thesis .
qed

lemma byte_zero_nine: "byte CHR ''0'' = 48" "byte CHR ''9'' = 57"
  by (simp_all add: byte_def)

lemma digits_not_Nil: "digits n \<noteq> []"
  by (subst digits.simps) simp

lemma digits_all_digit: "\<forall>c\<in>set (digits n). digit_byte c"
proof (induction n rule: digits.induct)
  case (1 n)
  show ?case
  proof (cases "n < 10")
    case True
    then show ?thesis
      by (subst digits.simps) (simp add: digit_byte_def byte_char_of_digit byte_zero_nine)
  next
    case False
    with 1 show ?thesis
      by (subst digits.simps) (simp add: digit_byte_def byte_char_of_digit byte_zero_nine)
  qed
qed

lemma ParseUint_loop_append:
  "ParseUint_loop (xs @ ys) m acc =
     (case ParseUint_loop xs m acc of Inl e \<Rightarrow> Inl e | Inr v \<Rightarrow> ParseUint_loop ys m v)"
  by (induction xs arbitrary: acc) auto

lemma ParseUint_loop_digits:
  "int n \<le> m \<Longrightarrow> ParseUint_loop (digits n) m 0 = Inr (int n)"
proof (induction n rule: digits.induct)
  case (1 n)
  show ?case
  proof (cases "n < 10")
    case True
    with 1(2) show ?thesis
      by (subst digits.simps) (simp add: byte_char_of_digit byte_zero_nine)
  next
    case False
    have le: "int (n div 10) \<le> m"
      using 1(2) by (simp add: zdiv_int)
    have md: "n mod 10 < 10" by simp
    have eq: "int (n div 10) * 10 + int (n mod 10) = int n"
      by (simp add: zdiv_int zmod_int)
    show ?thesis
      using False 1(1) [OF False le] 1(2) eq
      by (subst digits.simps)
         (simp add: ParseUint_loop_append byte_char_of_digit [OF md] byte_zero_nine)
  qed
qed

lemma digit_not_sign: "digit_byte c \<Longrightarrow> c \<noteq> CHR ''+'' \<and> c \<noteq> CHR ''-''"
  by (auto simp: digit_byte_def byte_def)

lemma ParseInt_unsigned:
  "c \<noteq> CHR ''+'' \<Longrightarrow> c \<noteq> CHR ''-'' \<Longrightarrow> ParseUint (c # cs) b = Inr un \<Longrightarrow>
     un < 2 ^ ((if b = 0 then IntSize else b) - 1) \<Longrightarrow> ParseInt (c # cs) b = Inr un"
  by (simp add: ParseInt_def)

lemma ParseInt_minus:
  "ParseUint cs b = Inr un \<Longrightarrow> un \<le> 2 ^ ((if b = 0 then IntSize else b) - 1) \<Longrightarrow>
     ParseInt (CHR ''-'' # cs) b = Inr (- un)"
  by (simp add: ParseInt_def)

lemma ParseUint_digits:
  "int n < 2 ^ 64 \<Longrightarrow> b = 64 \<or> b = 0 \<Longrightarrow> ParseUint (digits n) b = Inr (int n)"
  using ParseUint_loop_digits [of n "2 ^ 64 - 1"] digits_not_Nil [of n]
  by (auto simp: ParseUint_def IntSize_def)

lemma ParseInt_Itoa:
  assumes "- (2 ^ 63) \<le> i" and "i < 2 ^ 63" and b: "b = 64 \<or> b = 0"
  shows "ParseInt (Itoa i) b = Inr i"
proof (cases "i < 0")
  case False
  obtain c cs where d: "digits (nat i) = c # cs"
    using digits_not_Nil [of "nat i"] by (cases "digits (nat i)") auto
  have "digit_byte c"
    using digits_all_digit [of "nat i"] d by simp
  then have ns: "c \<noteq> CHR ''+''" "c \<noteq> CHR ''-''"
    using digit_not_sign by auto
  have "ParseUint (digits (nat i)) b = Inr (int (nat i))"
    using assms False by (intro ParseUint_digits) auto
  then have "ParseUint (c # cs) b = Inr i"
    using False d by simp
  from ParseInt_unsigned [OF ns this] assms d False show ?thesis
    by (auto simp: Itoa_def IntSize_def)
next
  case True
  have "ParseUint (digits (nat (- i))) b = Inr (int (nat (- i)))"
    using assms True by (intro ParseUint_digits) auto
  then have "ParseUint (digits (nat (- i))) b = Inr (- i)"
    using True by simp
  from ParseInt_minus [OF this] assms True show ?thesis
    by (auto simp: Itoa_def IntSize_def)
qed

lemma isDigit_byte: "isDigit (byte c) = digit_byte c"
  by (simp add: isDigit_def digit_byte_def byte_zero_nine)

lemma digit_not_space: "isDigit r \<Longrightarrow> \<not> isSpace r"
  by (auto simp: isDigit_def isSpace_def)

lemma SkipSpace_nonspace: "\<not> isSpace r \<Longrightarrow> SkipSpace (r # rest) = Inr (r # rest)"
  by (auto simp: isSpace_def)

lemma takeWhile_digits:
  "\<forall>c\<in>set ds. digit_byte c \<Longrightarrow> rs = [] \<or> \<not> isDigit (hd rs) \<Longrightarrow>
     takeWhile isDigit (map byte ds @ rs) = map byte ds \<and>
     dropWhile isDigit (map byte ds @ rs) = rs"
  by (induction ds) (cases rs; auto simp: isDigit_byte)+

lemma char_of_byte: "char_of (byte c) = c"
  by (simp add: byte_def)

lemma map_char_of_byte: "map (char_of \<circ> byte) ds = ds"
  by (induction ds) (simp_all add: byte_def)

lemma scanInt_unsigned:
  assumes "SkipSpace s0 = Inr s1" and "s1 \<noteq> []" and "\<not> isSign (hd s1)"
    and "takeWhile isDigit s1 = ds" and "ds \<noteq> []"
    and "ParseInt (map char_of ds) 64 = Inr i" and "dropWhile isDigit s1 = rs"
  shows "scanInt s0 = Inr (i, rs)"
proof -
  obtain r rest where s1: "s1 = r # rest"
    using assms(2) by (cases s1) auto
  have "scanInt s0 =
          (case ParseInt (map char_of ([] @ takeWhile isDigit s1)) 64 of
             Inl e \<Rightarrow> Inl e | Inr i \<Rightarrow> Inr (i, dropWhile isDigit s1))"
    using assms(1,3,4,5) unfolding scanInt_def s1 Let_def
    by (simp del: takeWhile.simps dropWhile.simps)
  then show ?thesis
    using assms(4,6,7) by simp
qed

lemma scanInt_signed:
  assumes "SkipSpace s0 = Inr (r # s2)" and "isSign r" and "s2 \<noteq> []"
    and "takeWhile isDigit s2 = ds" and "ds \<noteq> []"
    and "ParseInt (map char_of (r # ds)) 64 = Inr i" and "dropWhile isDigit s2 = rs"
  shows "scanInt s0 = Inr (i, rs)"
proof -
  have "scanInt s0 =
          (case ParseInt (map char_of ([r] @ takeWhile isDigit s2)) 64 of
             Inl e \<Rightarrow> Inl e | Inr i \<Rightarrow> Inr (i, dropWhile isDigit s2))"
    using assms(1,2,3,4,5) unfolding scanInt_def Let_def
    by (simp del: takeWhile.simps dropWhile.simps)
  then show ?thesis
    using assms(4,6,7) by simp
qed

lemma scanInt_Itoa:
  assumes r: "- (2 ^ 63) \<le> i" "i < 2 ^ 63" and t: "rs = [] \<or> \<not> isDigit (hd rs)"
  shows "scanInt (map byte (Itoa i) @ rs) = Inr (i, rs)"
proof (cases "i < 0")
  case False
  let ?ds = "digits (nat i)"
  obtain c cs where d: "?ds = c # cs"
    using digits_not_Nil [of "nat i"] by (cases ?ds) auto
  have dc: "digit_byte c"
    using digits_all_digit [of "nat i"] d by simp
  then have ns: "\<not> isSpace (byte c)" "\<not> isSign (byte c)"
    by (auto simp: digit_byte_def isSpace_def isSign_def byte_zero_nine)
  have it: "Itoa i = ?ds"
    using False by (simp add: Itoa_def)
  have sk: "SkipSpace (map byte ?ds @ rs) = Inr (map byte ?ds @ rs)"
    using SkipSpace_nonspace [OF ns(1)] d by simp
  have tw: "takeWhile isDigit (map byte ?ds @ rs) = map byte ?ds"
           "dropWhile isDigit (map byte ?ds @ rs) = rs"
    using takeWhile_digits [OF digits_all_digit t, of "nat i"] by simp_all
  have pi: "ParseInt (map char_of (map byte ?ds)) 64 = Inr i"
    using ParseInt_Itoa [OF r, of 64] it by (simp add: map_char_of_byte)
  have ne: "map byte ?ds @ rs \<noteq> []" "map byte ?ds \<noteq> []"
    using d by simp_all
  have hs: "\<not> isSign (hd (map byte ?ds @ rs))"
    using ns(2) d by simp
  show ?thesis
    unfolding it by (rule scanInt_unsigned [OF sk ne(1) hs tw(1) ne(2) pi tw(2)])
next
  case True
  let ?ds = "digits (nat (- i))"
  have it: "Itoa i = CHR ''-'' # ?ds"
    using True by (simp add: Itoa_def)
  have sk: "SkipSpace (map byte (CHR ''-'' # ?ds) @ rs) = Inr (byte CHR ''-'' # map byte ?ds @ rs)"
    using SkipSpace_nonspace [of "byte CHR ''-''"] by (simp add: isSpace_def byte_def)
  have sg: "isSign (byte CHR ''-'')"
    by (simp add: isSign_def byte_def)
  have tw: "takeWhile isDigit (map byte ?ds @ rs) = map byte ?ds"
           "dropWhile isDigit (map byte ?ds @ rs) = rs"
    using takeWhile_digits [OF digits_all_digit t, of "nat (- i)"] by simp_all
  have pi: "ParseInt (map char_of (byte CHR ''-'' # map byte ?ds)) 64 = Inr i"
    using ParseInt_Itoa [OF r, of 64] it by (simp add: map_char_of_byte char_of_byte)
  have ne: "map byte ?ds @ rs \<noteq> []" "map byte ?ds \<noteq> []"
    using digits_not_Nil [of "nat (- i)"] by simp_all
  show ?thesis
    unfolding it by (rule scanInt_signed [OF sk sg ne(1) tw(1) ne(2) pi tw(2)])
qed

lemma Itoa_first:
  "\<exists>c cs. Itoa i = c # cs \<and> \<not> isSpace (byte c) \<and> (digit_byte c \<or> c = CHR ''-'')"
proof (cases "i < 0")
  case True
  then show ?thesis by (simp add: Itoa_def isSpace_def byte_def)
next
  case False
  obtain c cs where d: "digits (nat i) = c # cs"
    using digits_not_Nil [of "nat i"] by (cases "digits (nat i)") auto
  have "digit_byte c"
    using digits_all_digit [of "nat i"] d by simp
  with d False show ?thesis
    by (auto simp: Itoa_def digit_byte_def isSpace_def byte_zero_nine)
qed

lemma verb_d_Itoa:
  assumes r: "- (2 ^ 63) \<le> i" "i < 2 ^ 63" and t: "rs = [] \<or> \<not> isDigit (hd rs)"
  shows "verb_d (map byte (Itoa i) @ rs) = Inr (i, rs)"
proof -
  obtain c cs where f: "Itoa i = c # cs" "\<not> isSpace (byte c)"
    using Itoa_first [of i] by auto
  have "SkipSpace (map byte (Itoa i) @ rs) = Inr (map byte (Itoa i) @ rs)"
    using SkipSpace_nonspace [OF f(2)] f(1) by simp
  then show ?thesis
    using scanInt_Itoa [OF r t] by (simp add: verb_d_def)
qed

lemma advance_space_Itoa:
  "advance_space (byte CHR '' '' # map byte (Itoa i) @ rs) = Inr (map byte (Itoa i) @ rs)"
proof -
  obtain c cs where f: "Itoa i = c # cs" "\<not> isSpace (byte c)"
    using Itoa_first [of i] by auto
  have "isSpace (byte CHR '' '')" "byte CHR '' '' \<noteq> 0x0A"
    by (simp_all add: isSpace_def byte_def)
  then show ?thesis
    using f by (simp add: advance_space_def)
qed

lemma Itoa_ascii: "\<forall>c\<in>set (Itoa i). byte c < 0x80"
proof -
  have "\<forall>c\<in>set (digits n). byte c < 0x80" for n
    using digits_all_digit [of n] by (auto simp: digit_byte_def byte_zero_nine)
  then show ?thesis
    by (auto simp: Itoa_def byte_def)
qed

lemma runes_field_end: "field_end trail \<Longrightarrow> runes trail = [] \<or> \<not> isDigit (hd (runes trail))"
  by (cases trail) (auto simp: field_end_def runes_ascii_Cons runes_Nil)

lemma runes_Itoa: "runes (Itoa i @ ys) = map byte (Itoa i) @ runes ys"
  by (rule runes_ascii_append [OF Itoa_ascii])

lemma space_facts: "byte CHR '' '' < 0x80" "\<not> isDigit (byte CHR '' '')" "isSpace (byte CHR '' '')"
  by (simp_all add: byte_def isDigit_def isSpace_def)

lemma Itoa_examples: "Itoa 0 = ''0''" "Itoa 1 = ''1''" "Itoa 300 = ''300''"
  by code_simp+

lemma byte_char_of_rune: "0 \<le> r \<Longrightarrow> r < 256 \<Longrightarrow> byte (char_of r) = r"
  by (simp add: byte_def)

lemma foldl_digits_mono:
  "list_all isDigit ds \<Longrightarrow> 0 \<le> acc \<Longrightarrow> acc \<le> foldl (\<lambda>n r. n * 10 + (r - 0x30)) acc ds"
proof (induction ds arbitrary: acc)
  case Nil
  then show ?case by simp
next
  case (Cons r ds)
  from Cons.prems have d: "isDigit r" and ds: "list_all isDigit ds"
    by simp_all
  from d have r: "0x30 \<le> r"
    by (simp add: isDigit_def)
  have "acc \<le> acc * 10 + (r - 0x30)"
    using Cons.prems(2) r by simp
  also have "\<dots> \<le> foldl (\<lambda>n r. n * 10 + (r - 0x30)) (acc * 10 + (r - 0x30)) ds"
    using Cons.prems(2) r by (intro Cons.IH ds) simp
  finally show ?case by simp
qed

lemma digits_value_nonneg: "list_all isDigit ds \<Longrightarrow> 0 \<le> digits_value ds"
  using foldl_digits_mono [of ds 0] by (simp add: digits_value_def)

lemma ParseUint_loop_runes:
  "list_all isDigit ds \<Longrightarrow> 0 \<le> acc \<Longrightarrow> acc \<le> m \<Longrightarrow>
     ParseUint_loop (map char_of ds) m acc =
       (if foldl (\<lambda>n r. n * 10 + (r - 0x30)) acc ds \<le> m
        then Inr (foldl (\<lambda>n r. n * 10 + (r - 0x30)) acc ds) else Inl ErrRange)"
proof (induction ds arbitrary: acc)
  case Nil
  then show ?case by simp
next
  case (Cons r ds)
  from Cons.prems have d: "isDigit r" and ds: "list_all isDigit ds"
    by simp_all
  from d have r: "0x30 \<le> r" "r \<le> 0x39"
    by (simp_all add: isDigit_def)
  have b: "byte (char_of r) = r"
    using r by (intro byte_char_of_rune) simp_all
  let ?a = "acc * 10 + (r - 0x30)"
  have a: "0 \<le> ?a"
    using Cons.prems(2) r by simp
  have mono: "?a \<le> foldl (\<lambda>n r. n * 10 + (r - 0x30)) ?a ds"
    by (rule foldl_digits_mono [OF ds a])
  show ?case
  proof (cases "m < ?a")
    case True
    with mono show ?thesis
      using r by (simp add: b byte_zero_nine)
  next
    case False
    then have "?a \<le> m" by simp
    from Cons.IH [OF ds a this] False show ?thesis
      using r by (simp add: b byte_zero_nine)
  qed
qed

lemma ParseUint_runes:
  "list_all isDigit ds \<Longrightarrow> ds \<noteq> [] \<Longrightarrow>
     ParseUint (map char_of ds) 64 =
       (if digits_value ds \<le> 2 ^ 64 - 1 then Inr (digits_value ds) else Inl ErrRange)"
  using ParseUint_loop_runes [of ds 0 "2 ^ 64 - 1"]
  by (simp add: ParseUint_def digits_value_def)

lemma char_of_signs: "char_of (0x2D :: int) = CHR ''-''" "char_of (0x2B :: int) = CHR ''+''"
proof -
  have "char_of (byte CHR ''-'') = CHR ''-''" "char_of (byte CHR ''+'') = CHR ''+''"
    by (simp_all add: char_of_byte)
  then show "char_of (0x2D :: int) = CHR ''-''" "char_of (0x2B :: int) = CHR ''+''"
    by (simp_all add: byte_def)
qed

lemma char_of_digit_not_sign:
  "isDigit r \<Longrightarrow> char_of r \<noteq> CHR ''-'' \<and> char_of r \<noteq> CHR ''+''"
proof -
  assume d: "isDigit r"
  then have "byte (char_of r) = r"
    by (intro byte_char_of_rune) (simp_all add: isDigit_def)
  moreover have "byte CHR ''-'' = 0x2D" "byte CHR ''+'' = 0x2B"
    by (simp_all add: byte_def)
  ultimately show ?thesis
    using d by (auto simp: isDigit_def)
qed

lemma ParseInt_token:
  assumes "token t"
  shows "ParseInt (map char_of t) 64 =
           (if int64 (number_value t) then Inr (number_value t) else Inl ErrRange)"
proof -
  from assms obtain r ds where t: "t = r # ds"
    by (cases t) (auto simp: token_def)
  show ?thesis
  proof (cases "isSign r")
    case True
    with assms t have ds: "ds \<noteq> []" "list_all isDigit ds"
      by (auto simp: token_def)
    note pu = ParseUint_runes [OF ds(2,1)]
    have nn: "0 \<le> digits_value ds"
      by (rule digits_value_nonneg [OF ds(2)])
    from True consider "r = 0x2D" | "r = 0x2B"
      by (auto simp: isSign_def)
    then show ?thesis
    proof cases
      case 1
      then show ?thesis
        using pu nn
        by (simp add: t ParseInt_def char_of_signs number_value_def int64_def)
    next
      case 2
      then show ?thesis
        using pu nn
        by (simp add: t ParseInt_def char_of_signs number_value_def int64_def)
    qed
  next
    case False
    with assms t have ds: "list_all isDigit (r # ds)"
      by (auto simp: token_def)
    then have d: "isDigit r" by simp
    have pu: "ParseUint (map char_of (r # ds)) 64 =
       (if digits_value (r # ds) \<le> 2 ^ 64 - 1 then Inr (digits_value (r # ds)) else Inl ErrRange)"
      by (rule ParseUint_runes [OF ds]) simp
    have nn: "0 \<le> digits_value (r # ds)"
      by (rule digits_value_nonneg [OF ds])
    have nv: "number_value (r # ds) = digits_value (r # ds)"
      using d by (auto simp: number_value_def isDigit_def)
    show ?thesis
      using pu nn char_of_digit_not_sign [OF d]
      by (simp add: t ParseInt_def nv int64_def)
  qed
qed

lemma blank_not_digit: "blank r \<Longrightarrow> \<not> isDigit r"
  by (auto simp: blank_def isSpace_def isDigit_def)

lemma sign_not_space: "isSign r \<Longrightarrow> \<not> isSpace r"
  by (auto simp: isSign_def isSpace_def)

lemma token_head:
  assumes "token t"
  shows "\<exists>r ds. t = r # ds \<and> \<not> isSpace r \<and> (isSign r \<or> isDigit r)"
proof -
  from assms obtain r ds where t: "t = r # ds"
    by (cases t) (simp_all add: token_def)
  show ?thesis
  proof (cases "isSign r")
    case True
    with t sign_not_space [OF True] show ?thesis by simp
  next
    case False
    with assms t have "isDigit r" by (simp add: token_def)
    with t digit_not_space [of r] show ?thesis by simp
  qed
qed

lemma takeWhile_isDigit_append:
  "list_all isDigit ds \<Longrightarrow> number_end r \<Longrightarrow>
     takeWhile isDigit (ds @ r) = ds \<and> dropWhile isDigit (ds @ r) = r"
proof (induction ds)
  case Nil
  then show ?case by (cases r) (simp_all add: number_end_def)
next
  case (Cons d ds)
  then show ?case by simp
qed

lemma blank_fun: "(\<lambda>r. isSpace r \<and> r \<noteq> 0x0A) = blank"
  by (simp add: fun_eq_iff blank_def)

lemma dropWhile_blank_append:
  "list_all blank b \<Longrightarrow> s = [] \<or> \<not> blank (hd s) \<Longrightarrow> dropWhile blank (b @ s) = s"
proof (induction b)
  case Nil
  then show ?case by (cases s) simp_all
next
  case (Cons r b)
  then show ?case by simp
qed

lemma advance_space_blanks:
  assumes "blanks b" and "s = [] \<or> \<not> blank (hd s)"
  shows "advance_space (b @ s) = Inr s"
proof -
  from assms(1) obtain r b' where b: "b = r # b'" and r: "blank r" and la: "list_all blank b"
    by (cases b) (auto simp: blanks_def)
  have d: "dropWhile blank (b @ s) = s"
    by (rule dropWhile_blank_append [OF la assms(2)])
  have "advance_space (r # (b' @ s)) = Inr (dropWhile blank (r # (b' @ s)))"
    using r unfolding advance_space_def blank_fun
    by (simp add: blank_def del: dropWhile.simps)
  then show ?thesis
    using d by (simp add: b del: dropWhile.simps)
qed

lemma verb_d_number:
  assumes n: "number n" and e: "number_end r"
  shows "verb_d (n @ r) = Inr (number_value n, r)"
proof -
  from n have t: "token n" and v: "int64 (number_value n)"
    by (simp_all add: number_def)
  from token_head [OF t] obtain x ds where x: "n = x # ds" "\<not> isSpace x"
    by blast
  have sk: "SkipSpace (n @ r) = Inr (n @ r)"
    using SkipSpace_nonspace [OF x(2)] x(1) by simp
  have pi: "ParseInt (map char_of n) 64 = Inr (number_value n)"
    using ParseInt_token [OF t] v by simp
  have "scanInt (n @ r) = Inr (number_value n, r)"
  proof (cases "isSign x")
    case True
    with t x(1) have ds: "ds \<noteq> []" "list_all isDigit ds"
      by (auto simp: token_def)
    have sk': "SkipSpace (n @ r) = Inr (x # (ds @ r))"
      using sk x(1) by simp
    have tw: "takeWhile isDigit (ds @ r) = ds" "dropWhile isDigit (ds @ r) = r"
      using takeWhile_isDigit_append [OF ds(2) e] by simp_all
    have ne: "ds @ r \<noteq> []"
      using ds(1) by simp
    have pi': "ParseInt (map char_of (x # ds)) 64 = Inr (number_value n)"
      using pi x(1) by simp
    show ?thesis
      by (rule scanInt_signed [OF sk' True ne tw(1) ds(1) pi' tw(2)])
  next
    case False
    with t x(1) have ds: "list_all isDigit n"
      by (auto simp: token_def)
    have tw: "takeWhile isDigit (n @ r) = n" "dropWhile isDigit (n @ r) = r"
      using takeWhile_isDigit_append [OF ds e] by simp_all
    have ne: "n @ r \<noteq> []" "n \<noteq> []"
      using x(1) by simp_all
    have hs: "\<not> isSign (hd (n @ r))"
      using False x(1) by simp
    show ?thesis
      by (rule scanInt_unsigned [OF sk ne(1) hs tw(1) ne(2) pi tw(2)])
  qed
  then show ?thesis
    by (simp add: verb_d_def sk)
qed

lemma SkipSpace_Inr:
  "SkipSpace s = Inr s' \<Longrightarrow> \<exists>sp. s = sp @ s' \<and> list_all blank sp"
proof (induction s)
  case Nil
  then show ?case by simp
next
  case (Cons r s)
  show ?case
  proof (cases "r = 0x0D \<and> (case s of [] \<Rightarrow> False | r' # _ \<Rightarrow> r' = 0x0A)")
    case True
    with Cons.prems have "SkipSpace s = Inr s'" by simp
    from Cons.IH [OF this] obtain sp where "s = sp @ s'" "list_all blank sp" by blast
    moreover have "blank r"
      using True by (simp add: blank_def isSpace_def)
    ultimately have "r # s = (r # sp) @ s' \<and> list_all blank (r # sp)" by simp
    then show ?thesis by blast
  next
    case False
    note nf = this
    show ?thesis
    proof (cases "r = 0x0A")
      case True
      with Cons.prems nf show ?thesis by simp
    next
      case False
      note nl = this
      show ?thesis
      proof (cases "isSpace r")
        case False
        with Cons.prems nf nl have "s' = r # s" by simp
        then have "r # s = [] @ s' \<and> list_all blank []" by simp
        then show ?thesis by blast
      next
        case True
        with Cons.prems nf nl have "SkipSpace s = Inr s'" by simp
        from Cons.IH [OF this] obtain sp where "s = sp @ s'" "list_all blank sp" by blast
        moreover have "blank r"
          using True nl by (simp add: blank_def)
        ultimately have "r # s = (r # sp) @ s' \<and> list_all blank (r # sp)" by simp
        then show ?thesis by blast
      qed
    qed
  qed
qed

lemma advance_space_Inr:
  assumes "advance_space s = Inr s'"
  shows "(s = [] \<and> s' = []) \<or> (\<exists>b. blanks b \<and> s = b @ s')"
proof (cases s)
  case Nil
  with assms show ?thesis by (simp add: advance_space_def)
next
  case (Cons r rest)
  with assms have r: "isSpace r" "r \<noteq> 0x0A"
    and s': "s' = dropWhile (\<lambda>r. isSpace r \<and> r \<noteq> 0x0A) s"
    by (simp_all add: advance_space_def split: if_splits)
  let ?b = "takeWhile (\<lambda>r. isSpace r \<and> r \<noteq> 0x0A) s"
  have "s = ?b @ s'"
    using s' by simp
  moreover have "list_all blank ?b"
    unfolding blank_fun list_all_iff by (auto dest: set_takeWhileD)
  moreover have "?b \<noteq> []"
    using r Cons by simp
  ultimately have "blanks ?b \<and> s = ?b @ s'"
    by (simp add: blanks_def)
  then show ?thesis by blast
qed

lemma number_end_dropWhile: "number_end (dropWhile isDigit xs)"
  by (induction xs) (auto simp: number_end_def)

lemma scanInt_Inr:
  assumes "scanInt s = Inr (i, r)"
  shows "\<exists>sp n. s = sp @ n @ r \<and> list_all blank sp \<and> number n \<and> number_value n = i \<and>
           number_end r"
proof -
  from assms obtain s1 where sk: "SkipSpace s = Inr s1"
    by (cases "SkipSpace s") (auto simp: scanInt_def)
  from SkipSpace_Inr [OF sk] obtain sp where sp: "s = sp @ s1" "list_all blank sp"
    by blast
  from assms sk obtain x rest where s1: "s1 = x # rest"
    by (cases s1) (auto simp: scanInt_def)
  let ?s2 = "if isSign x then rest else s1"
  let ?ds = "takeWhile isDigit ?s2"
  let ?n = "(if isSign x then [x] else []) @ ?ds"
  from assms sk s1 have ne: "?s2 \<noteq> []" and dn: "?ds \<noteq> []"
    and pi: "ParseInt (map char_of ?n) 64 = Inr i" and r: "r = dropWhile isDigit ?s2"
    by (auto simp: scanInt_def Let_def split: if_splits sum.splits simp del: takeWhile.simps dropWhile.simps)
  have da: "list_all isDigit ?ds"
    unfolding list_all_iff by (auto dest: set_takeWhileD)
  have tk: "token ?n"
  proof (cases "isSign x")
    case True
    with dn da show ?thesis by (simp add: token_def)
  next
    case False
    from dn obtain y ys where y: "?ds = y # ys" by (cases ?ds) auto
    with da have "isDigit y" by simp
    then have "\<not> isSign y" by (auto simp: isDigit_def isSign_def)
    with False y da show ?thesis by (simp add: token_def)
  qed
  from ParseInt_token [OF tk] pi have v: "int64 (number_value ?n)" "number_value ?n = i"
    by (auto split: if_splits)
  have split: "s1 = ?n @ r"
    unfolding r using s1 by (cases "isSign x") simp_all
  have e: "number_end r"
    unfolding r by (rule number_end_dropWhile)
  have "s = sp @ ?n @ r \<and> list_all blank sp \<and> number ?n \<and> number_value ?n = i \<and> number_end r"
    using sp split tk v e by (simp add: number_def)
  then show ?thesis by blast
qed

lemma verb_d_Inr:
  assumes "verb_d s = Inr (i, r)"
  shows "\<exists>sp n. s = sp @ n @ r \<and> list_all blank sp \<and> number n \<and> number_value n = i \<and>
           number_end r"
proof -
  from assms obtain s1 where sk: "SkipSpace s = Inr s1" and si: "scanInt s1 = Inr (i, r)"
    by (cases "SkipSpace s") (auto simp: verb_d_def)
  from SkipSpace_Inr [OF sk] obtain sp where sp: "s = sp @ s1" "list_all blank sp"
    by blast
  from scanInt_Inr [OF si] obtain sp' n where
    n: "s1 = sp' @ n @ r" "list_all blank sp'" "number n" "number_value n = i" "number_end r"
    by blast
  have "s = (sp @ sp') @ n @ r \<and> list_all blank (sp @ sp') \<and> number n \<and> number_value n = i \<and>
          number_end r"
    using sp n by simp
  then show ?thesis by blast
qed

section \<open>Facts about the parser\<close>

lemma Refresh_data_delimited:
  assumes "CHR ''('' \<notin> set pre" and "CHR '')'' \<notin> set name"
  shows "Refresh_data (pre @ CHR ''('' # name @ CHR '')'' # sep # rest) p =
           Returns (Sscanf rest (p\<lparr>binary := name\<rparr>))"
proof -
  let ?data = "pre @ CHR ''('' # name @ CHR '')'' # sep # rest"
  have s: "IndexRune ?data CHR ''('' + 1 = int (length pre) + 1"
    using IndexRune_first [OF assms(1)] by simp
  have a: "slice_from ?data (int (length pre) + 1) = Returns (name @ CHR '')'' # sep # rest)"
    by (simp add: slice_from_def nat_add_distrib)
  have e: "IndexRune (name @ CHR '')'' # sep # rest) CHR '')'' = int (length name)"
    using IndexRune_first [OF assms(2)] by simp
  have n: "slice ?data (int (length pre) + 1) (int (length pre) + 1 + int (length name)) = Returns name"
    by (simp add: slice_def nat_add_distrib)
  have r: "slice_from ?data (int (length pre) + 1 + int (length name) + 2) = Returns rest"
    by (simp add: slice_from_def nat_add_distrib eval_nat_numeral)
  show ?thesis
    by (simp only: Refresh_data_def Let_def s a e n r go.case)
qed

lemma Sscanf_fields:
  assumes a: "int64 a" and b: "int64 b" and c: "int64 c"
    and st: "byte st < 0x80" and trail: "field_end trail"
  shows "Sscanf (st # CHR '' '' # Itoa a @ CHR '' '' # Itoa b @ CHR '' '' # Itoa c @ trail) p =
           (p\<lparr>state := byte st, ppid := a, pgrp := b, sid := c\<rparr>, None)"
proof -
  let ?sp = "byte CHR '' ''"
  let ?r3 = "runes trail"
  let ?r2 = "?sp # map byte (Itoa c) @ ?r3"
  let ?r1 = "?sp # map byte (Itoa b) @ ?r2"
  let ?r0 = "?sp # map byte (Itoa a) @ ?r1"
  have R: "runes (st # CHR '' '' # Itoa a @ CHR '' '' # Itoa b @ CHR '' '' # Itoa c @ trail) =
             byte st # ?r0"
    by (simp add: runes_ascii_Cons runes_Itoa st space_facts)
  have e: "?r1 = [] \<or> \<not> isDigit (hd ?r1)" "?r2 = [] \<or> \<not> isDigit (hd ?r2)"
    by (simp_all add: space_facts)
  have s0: "scanRune (byte st # ?r0) = Inr (byte st, ?r0)"
    by (simp add: scanRune_def)
  have a1: "advance_space ?r0 = Inr (map byte (Itoa a) @ ?r1)"
    by (rule advance_space_Itoa)
  have v1: "verb_d (map byte (Itoa a) @ ?r1) = Inr (a, ?r1)"
    using a by (intro verb_d_Itoa e) (simp_all add: int64_def)
  have a2: "advance_space ?r1 = Inr (map byte (Itoa b) @ ?r2)"
    by (rule advance_space_Itoa)
  have v2: "verb_d (map byte (Itoa b) @ ?r2) = Inr (b, ?r2)"
    using b by (intro verb_d_Itoa e) (simp_all add: int64_def)
  have a3: "advance_space ?r2 = Inr (map byte (Itoa c) @ ?r3)"
    by (rule advance_space_Itoa)
  have v3: "verb_d (map byte (Itoa c) @ ?r3) = Inr (c, ?r3)"
    using c runes_field_end [OF trail] by (intro verb_d_Itoa) (simp_all add: int64_def)
  show ?thesis
    by (simp only: Sscanf_def R s0 a1 v1 a2 v2 a3 v3 sum.case prod.case)
qed

lemma number_not_blank: "number n \<Longrightarrow> n @ s = [] \<or> \<not> blank (hd (n @ s))"
proof -
  assume "number n"
  then have "token n" by (simp add: number_def)
  from token_head [OF this] obtain r ds where "n = r # ds" "\<not> isSpace r" by blast
  then show ?thesis by (simp add: blank_def)
qed

lemma blanks_number_end: "blanks b \<Longrightarrow> number_end (b @ s)"
  by (cases b) (auto simp: blanks_def number_end_def dest: blank_not_digit)

lemma Sscanf_fields_ok:
  assumes "fields (runes data) c i j k"
  shows "Sscanf data p = (p\<lparr>state := c, ppid := i, pgrp := j, sid := k\<rparr>, None)"
proof -
  from assms obtain b1 n1 b2 n2 b3 n3 trail where
    rs: "runes data = c # b1 @ n1 @ b2 @ n2 @ b3 @ n3 @ trail"
    and b: "blanks b1" "blanks b2" "blanks b3"
    and n: "number n1" "number n2" "number n3"
    and v: "number_value n1 = i" "number_value n2 = j" "number_value n3 = k"
    and e: "number_end trail"
    by blast
  let ?s6 = "n3 @ trail"
  let ?s5 = "b3 @ ?s6"
  let ?s4 = "n2 @ ?s5"
  let ?s3 = "b2 @ ?s4"
  let ?s2 = "n1 @ ?s3"
  let ?s1 = "b1 @ ?s2"
  have 1: "scanRune (c # ?s1) = Inr (c, ?s1)"
    by (simp add: scanRune_def)
  have 2: "advance_space ?s1 = Inr ?s2"
    by (rule advance_space_blanks [OF b(1) number_not_blank [OF n(1)]])
  have 3: "verb_d ?s2 = Inr (i, ?s3)"
    using verb_d_number [OF n(1) blanks_number_end [OF b(2)]] v(1) by simp
  have 4: "advance_space ?s3 = Inr ?s4"
    by (rule advance_space_blanks [OF b(2) number_not_blank [OF n(2)]])
  have 5: "verb_d ?s4 = Inr (j, ?s5)"
    using verb_d_number [OF n(2) blanks_number_end [OF b(3)]] v(2) by simp
  have 6: "advance_space ?s5 = Inr ?s6"
    by (rule advance_space_blanks [OF b(3) number_not_blank [OF n(3)]])
  have 7: "verb_d ?s6 = Inr (k, trail)"
    using verb_d_number [OF n(3) e] v(3) by simp
  show ?thesis
    by (simp only: Sscanf_def rs 1 2 3 4 5 6 7 sum.case prod.case)
qed

lemma number_not_Nil: "number n \<Longrightarrow> n \<noteq> []"
  by (auto simp: number_def token_def)

lemma advance_then_number:
  assumes a: "advance_space s = Inr s'" and v: "verb_d s' = Inr (i, r)"
  shows "\<exists>b n. s = b @ n @ r \<and> blanks b \<and> number n \<and> number_value n = i \<and> number_end r"
proof -
  from verb_d_Inr [OF v] obtain sp n where
    n: "s' = sp @ n @ r" "list_all blank sp" "number n" "number_value n = i" "number_end r"
    by blast
  have "s' \<noteq> []"
    using n(1) number_not_Nil [OF n(3)] by simp
  with advance_space_Inr [OF a] obtain b where b: "blanks b" "s = b @ s'"
    by blast
  have "s = (b @ sp) @ n @ r \<and> blanks (b @ sp) \<and> number n \<and> number_value n = i \<and> number_end r"
    using b n by (simp add: blanks_def)
  then show ?thesis by blast
qed

lemma Sscanf_ok_fields:
  assumes h: "Sscanf data p = (p', None)"
  shows "\<exists>c i j k. fields (runes data) c i j k"
proof -
  obtain c s1 where 1: "scanRune (runes data) = Inr (c, s1)"
    using h by (cases "scanRune (runes data)") (auto simp: Sscanf_def)
  obtain s2 where 2: "advance_space s1 = Inr s2"
    using h 1 by (cases "advance_space s1") (auto simp: Sscanf_def)
  obtain i s3 where 3: "verb_d s2 = Inr (i, s3)"
    using h 1 2 by (cases "verb_d s2") (auto simp: Sscanf_def)
  obtain s4 where 4: "advance_space s3 = Inr s4"
    using h 1 2 3 by (cases "advance_space s3") (auto simp: Sscanf_def)
  obtain j s5 where 5: "verb_d s4 = Inr (j, s5)"
    using h 1 2 3 4 by (cases "verb_d s4") (auto simp: Sscanf_def)
  obtain s6 where 6: "advance_space s5 = Inr s6"
    using h 1 2 3 4 5 by (cases "advance_space s5") (auto simp: Sscanf_def)
  obtain k s7 where 7: "verb_d s6 = Inr (k, s7)"
    using h 1 2 3 4 5 6 by (cases "verb_d s6") (auto simp: Sscanf_def)
  from 1 have rs: "runes data = c # s1"
    by (cases "runes data") (simp_all add: scanRune_def)
  from advance_then_number [OF 2 3] obtain b1 n1 where
    a: "s1 = b1 @ n1 @ s3" "blanks b1" "number n1" "number_value n1 = i"
    by blast
  from advance_then_number [OF 4 5] obtain b2 n2 where
    b: "s3 = b2 @ n2 @ s5" "blanks b2" "number n2" "number_value n2 = j"
    by blast
  from advance_then_number [OF 6 7] obtain b3 n3 where
    c: "s5 = b3 @ n3 @ s7" "blanks b3" "number n3" "number_value n3 = k" "number_end s7"
    by blast
  have "runes data = c # b1 @ n1 @ b2 @ n2 @ b3 @ n3 @ s7"
    using rs a(1) b(1) c(1) by simp
  with a b c show ?thesis by blast
qed

lemma Sscanf_pid: "Sscanf data q = (p', e) \<Longrightarrow> pid p' = pid q"
  by (auto simp: Sscanf_def split: sum.splits prod.splits)

lemma Sscanf_binary: "Sscanf data q = (p', e) \<Longrightarrow> binary p' = binary q"
  by (auto simp: Sscanf_def split: sum.splits prod.splits)

lemma Refresh_data_shape:
  "Refresh_data data p = Returns r \<Longrightarrow> \<exists>name rest. r = Sscanf rest (p\<lparr>binary := name\<rparr>)"
  by (auto simp: Refresh_data_def Let_def split: go.splits)

lemma Refresh_data_pid: "Refresh_data data p = Returns (p', e) \<Longrightarrow> pid p' = pid p"
  by (auto dest!: Refresh_data_shape dest: Sscanf_pid [OF sym])

lemma newUnixProcess_pid: "newUnixProcess fs n = Returns (p, e) \<Longrightarrow> pid p = n"
  by (auto simp: newUnixProcess_def Refresh_def split: sum.splits dest: Refresh_data_pid)

lemma Sscanf_None:
  assumes h: "Sscanf data p = (p', None)"
  shows "\<exists>c i j k. \<forall>q. Sscanf data q = (q\<lparr>state := c, ppid := i, pgrp := j, sid := k\<rparr>, None)"
proof -
  obtain c s1 where 1: "scanRune (runes data) = Inr (c, s1)"
    using h by (cases "scanRune (runes data)") (auto simp: Sscanf_def)
  obtain s2 where 2: "advance_space s1 = Inr s2"
    using h 1 by (cases "advance_space s1") (auto simp: Sscanf_def)
  obtain i s3 where 3: "verb_d s2 = Inr (i, s3)"
    using h 1 2 by (cases "verb_d s2") (auto simp: Sscanf_def)
  obtain s4 where 4: "advance_space s3 = Inr s4"
    using h 1 2 3 by (cases "advance_space s3") (auto simp: Sscanf_def)
  obtain j s5 where 5: "verb_d s4 = Inr (j, s5)"
    using h 1 2 3 4 by (cases "verb_d s4") (auto simp: Sscanf_def)
  obtain s6 where 6: "advance_space s5 = Inr s6"
    using h 1 2 3 4 5 by (cases "advance_space s5") (auto simp: Sscanf_def)
  obtain k s7 where 7: "verb_d s6 = Inr (k, s7)"
    using h 1 2 3 4 5 6 by (cases "verb_d s6") (auto simp: Sscanf_def)
  have "Sscanf data q = (q\<lparr>state := c, ppid := i, pgrp := j, sid := k\<rparr>, None)" for q
    by (simp add: Sscanf_def 1 2 3 4 5 6 7)
  then show ?thesis by blast
qed

lemma Sscanf_independent:
  assumes "Sscanf data p = (p', None)"
  shows "Sscanf data q = (p'\<lparr>pid := pid q, binary := binary q\<rparr>, None)"
proof -
  from Sscanf_None [OF assms] obtain c i j k where
    a: "\<And>q. Sscanf data q = (q\<lparr>state := c, ppid := i, pgrp := j, sid := k\<rparr>, None)"
    by blast
  from a [of p] assms have "p' = p\<lparr>state := c, ppid := i, pgrp := j, sid := k\<rparr>"
    by simp
  then show ?thesis
    using a [of q] by (cases p; cases q) simp
qed

lemma Refresh_data_independent:
  assumes "Refresh_data data p = Returns (p', None)"
  shows "Refresh_data data q = Returns (p'\<lparr>pid := pid q\<rparr>, None)"
proof -
  let ?s = "IndexRune data CHR ''('' + 1"
  from assms obtain after name rest where
    a: "slice_from data ?s = Returns after"
    and n: "slice data ?s (?s + IndexRune after CHR '')'') = Returns name"
    and r: "slice_from data (?s + IndexRune after CHR '')'' + 2) = Returns rest"
    and s: "Sscanf rest (p\<lparr>binary := name\<rparr>) = (p', None)"
    by (auto simp: Refresh_data_def Let_def split: go.splits)
  have b: "binary p' = name"
    using Sscanf_binary [OF s] by simp
  have "Sscanf rest (q\<lparr>binary := name\<rparr>) = (p'\<lparr>pid := pid q, binary := name\<rparr>, None)"
    using Sscanf_independent [OF s, of "q\<lparr>binary := name\<rparr>"] by simp
  moreover have "p'\<lparr>pid := pid q, binary := name\<rparr> = p'\<lparr>pid := pid q\<rparr>"
    using b by (cases p') simp
  ultimately show ?thesis
    using a n r by (simp add: Refresh_data_def Let_def)
qed

lemma newUnixProcess_None:
  "newUnixProcess fs n = Returns (r, None) \<Longrightarrow>
     \<exists>data. ReadFile_stat fs n = Inr data \<and>
       Refresh_data data \<lparr>pid = n, ppid = 0, state = 0, pgrp = 0, sid = 0, binary = []\<rparr> =
         Returns (r, None)"
  by (auto simp: newUnixProcess_def Refresh_def split: sum.splits)

lemma Itoa_chars: "x \<in> set (Itoa i) \<Longrightarrow> digit_byte x \<or> x = CHR ''-''"
  using digits_all_digit by (auto simp: Itoa_def split: if_splits)

lemma Itoa_no_paren: "CHR ''('' \<notin> set (Itoa i)"
  using Itoa_chars [of "CHR ''(''" i] by (auto simp: digit_byte_def byte_def)

lemma Itoa_nonneg_digit: "0 \<le> n \<Longrightarrow> \<exists>c cs. Itoa n = c # cs \<and> digit_byte c"
  using digits_not_Nil [of "nat n"] digits_all_digit [of "nat n"]
  by (cases "digits (nat n)") (auto simp: Itoa_def)

lemma Refresh_data_render:
  assumes "CHR '')'' \<notin> set name" and "int64 a" and "int64 b" and "int64 c"
    and "byte st < 0x80" and "field_end trail"
  shows "Refresh_data (render n name st a b c @ trail) p =
           Returns (p\<lparr>binary := name, state := byte st, ppid := a, pgrp := b, sid := c\<rparr>, None)"
proof -
  let ?fields = "st # CHR '' '' # Itoa a @ CHR '' '' # Itoa b @ CHR '' '' # Itoa c @ trail"
  have e: "render n name st a b c @ trail =
             (Itoa n @ '' '') @ CHR ''('' # name @ CHR '')'' # CHR '' '' # ?fields"
    by (simp add: render_def)
  have np: "CHR ''('' \<notin> set (Itoa n @ '' '')"
    using Itoa_no_paren [of n] by simp
  have "Refresh_data (render n name st a b c @ trail) p =
          Returns (Sscanf ?fields (p\<lparr>binary := name\<rparr>))"
    unfolding e by (rule Refresh_data_delimited [OF np assms(1)])
  also have "Sscanf ?fields (p\<lparr>binary := name\<rparr>) =
          (p\<lparr>binary := name, state := byte st, ppid := a, pgrp := b, sid := c\<rparr>, None)"
    using Sscanf_fields [OF assms(2,3,4,5,6), of "p\<lparr>binary := name\<rparr>"] by simp
  finally show ?thesis .
qed

section \<open>Facts about the enumeration\<close>

lemma range_fis_append:
  "range_fis fs (xs @ ys) acc =
     (case range_fis fs xs acc of Panics \<Rightarrow> Panics | Returns acc' \<Rightarrow> range_fis fs ys acc')"
  by (induction xs arbitrary: acc)
     (auto split: list.splits sum.splits go.splits option.splits prod.splits)

lemma ParseUint_loop_Inr:
  "ParseUint_loop s m acc = Inr v \<Longrightarrow>
     (\<forall>c\<in>set s. digit_byte c) \<and> v = foldl (\<lambda>n c. n * 10 + (byte c - byte CHR ''0'')) acc s"
  by (induction s arbitrary: acc) (auto simp: digit_byte_def split: if_splits)

lemma ParseInt_digits:
  assumes "ParseInt (c # cs) b = Inr n" and "digit_byte c"
  shows "(\<forall>x\<in>set (c # cs). digit_byte x) \<and> n = decimal (c # cs)"
proof -
  from assms(2) have ns: "c \<noteq> CHR ''+''" "c \<noteq> CHR ''-''"
    by (auto simp: digit_byte_def byte_def)
  with assms(1) obtain un where "ParseUint (c # cs) b = Inr un" "n = un"
    by (auto simp: ParseInt_def Let_def split: sum.splits error.splits if_splits)
  then show ?thesis
    using ParseUint_loop_Inr [of "c # cs" _ 0 un]
    by (auto simp: ParseUint_def decimal_def)
qed

lemma range_fis_mem:
  "range_fis fs fis acc = Returns rs \<Longrightarrow> p \<in> set rs \<Longrightarrow>
     p \<in> set acc \<or>
     (\<exists>fi\<in>set fis. IsDir fi \<and> Name fi \<noteq> [] \<and> digit_byte (hd (Name fi)) \<and>
        (\<exists>n. ParseInt (Name fi) 0 = Inr n \<and> newUnixProcess fs n = Returns (p, None)))"
proof (induction fis arbitrary: acc)
  case Nil
  then show ?case by simp
next
  case (Cons fi fis)
  show ?case
  proof (cases "IsDir fi")
    case False
    with Cons show ?thesis by auto
  next
    case True
    note dir = this
    show ?thesis
    proof (cases "Name fi")
      case Nil
      with Cons dir show ?thesis by simp
    next
      case (Cons c cs)
      note nm = this
      show ?thesis
      proof (cases "digit_byte c")
        case False
        with Cons.prems Cons.IH [of acc] dir nm show ?thesis
          by (auto simp: digit_byte_def)
      next
        case True
        note dg = this
        show ?thesis
        proof (cases "ParseInt (Name fi) 0")
          case (Inl e)
          with Cons.prems Cons.IH [of acc] dir nm dg show ?thesis
            by (auto simp: digit_byte_def)
        next
          case (Inr n)
          note pi = this
          show ?thesis
          proof (cases "newUnixProcess fs n")
            case Panics
            with Cons.prems dir nm dg pi show ?thesis
              by (auto simp: digit_byte_def)
          next
            case (Returns r)
            obtain q e where r: "r = (q, e)" by (cases r)
            show ?thesis
            proof (cases e)
              case None
              with Cons.prems Cons.IH [of "acc @ [q]"] dir nm dg pi Returns r show ?thesis
                by (auto simp: digit_byte_def)
            next
              case (Some err)
              with Cons.prems Cons.IH [of acc] dir nm dg pi Returns r show ?thesis
                by (auto simp: digit_byte_def)
            qed
          qed
        qed
      qed
    qed
  qed
qed

lemma readdir_loop_mem:
  "readdir_loop fs d acc = Returns (rs, None) \<Longrightarrow> p \<in> set rs \<Longrightarrow>
     p \<in> set acc \<or>
     (\<exists>fi\<in>set (listed d). IsDir fi \<and> Name fi \<noteq> [] \<and> digit_byte (hd (Name fi)) \<and>
        (\<exists>n. ParseInt (Name fi) 0 = Inr n \<and> newUnixProcess fs n = Returns (p, None)))"
proof (induction d arbitrary: acc)
  case Nil
  then show ?case by simp
next
  case (Cons b d)
  obtain fis err where b: "b = (fis, err)" by (cases b)
  show ?case
  proof (cases "err = None")
    case False
    with Cons.prems b show ?thesis by (auto split: if_splits)
  next
    case True
    with Cons.prems b obtain acc' where
      a: "range_fis fs fis acc = Returns acc'" and l: "readdir_loop fs d acc' = Returns (rs, None)"
      by (auto split: go.splits)
    from Cons.IH [OF l Cons.prems(2)] range_fis_mem [OF a] True b show ?thesis
      by auto
  qed
qed

lemma readdir_loop_error:
  "readdir_loop fs d acc = Returns (rs, Some e) \<Longrightarrow> listing_error d = Some e \<and> rs = []"
  by (induction d arbitrary: acc) (auto split: if_splits go.splits)

lemma readdir_loop_prefix:
  "\<forall>b\<in>set pre. snd b = None \<Longrightarrow>
     readdir_loop fs (pre @ d) acc =
       (case range_fis fs (concat (map fst pre)) acc of
          Panics \<Rightarrow> Panics
        | Returns acc' \<Rightarrow> readdir_loop fs d acc')"
proof (induction pre arbitrary: acc)
  case Nil
  then show ?case by simp
next
  case (Cons b pre)
  obtain fis err where b: "b = (fis, err)" by (cases b)
  with Cons.prems have err: "err = None" by simp
  show ?case
    using Cons.IH Cons.prems
    by (simp add: b err range_fis_append split: go.splits)
qed

lemma newUnixProcess_Open [simp]:
  "newUnixProcess (fs\<lparr>Open_proc := X\<rparr>) n = newUnixProcess fs n"
  by (simp add: newUnixProcess_def Refresh_def)

lemma range_fis_Open [simp]:
  "range_fis (fs\<lparr>Open_proc := X\<rparr>) fis acc = range_fis fs fis acc"
  by (induction fis arbitrary: acc)
     (auto split: list.splits sum.splits go.splits option.splits prod.splits)

lemma readdir_loop_Open [simp]:
  "readdir_loop (fs\<lparr>Open_proc := X\<rparr>) d acc = readdir_loop fs d acc"
  by (induction d arbitrary: acc) (auto split: go.splits)

lemma range_fis_skip:
  assumes "IsDir fi" and "Name fi = c # cs" and "digit_byte c"
    and "ParseInt (Name fi) 0 = Inr n" and "newUnixProcess fs n = Returns (q, Some e)"
  shows "range_fis fs (xs @ fi # ys) acc = range_fis fs (xs @ ys) acc"
proof -
  have "range_fis fs (fi # ys) acc' = range_fis fs ys acc'" for acc'
    using assms by (simp add: digit_byte_def)
  then show ?thesis
    by (simp add: range_fis_append split: go.splits)
qed

lemma readdir_loop_batch:
  "(\<And>acc. range_fis fs fis acc = range_fis fs fis' acc) \<Longrightarrow>
     readdir_loop fs (pre @ (fis, err) # post) acc =
     readdir_loop fs (pre @ (fis', err) # post) acc"
  by (induction pre arbitrary: acc) (auto split: go.splits)

lemma scenario_snapshot:
  "processes (scenario d1 d2) =
     Returns ([\<lparr>pid = 1, ppid = 0, state = 83, pgrp = 1, sid = 1, binary = ''init''\<rparr>,
               \<lparr>pid = 2, ppid = 0, state = 83, pgrp = 0, sid = 0, binary = ''kthreadd''\<rparr>,
               \<lparr>pid = 300, ppid = 1, state = 83, pgrp = 300, sid = 300, binary = ''sshd''\<rparr>], None)"
proof -
  let ?rs = "[\<lparr>pid = 1, ppid = 0, state = 83, pgrp = 1, sid = 1, binary = ''init''\<rparr>,
              \<lparr>pid = 2, ppid = 0, state = 83, pgrp = 0, sid = 0, binary = ''kthreadd''\<rparr>,
              \<lparr>pid = 300, ppid = 1, state = 83, pgrp = 300, sid = 300, binary = ''sshd''\<rparr>]"
  have tt: "processes (scenario True True) = Returns (?rs, None)" by code_simp
  have tf: "processes (scenario True False) = Returns (?rs, None)" by code_simp
  have ft: "processes (scenario False True) = Returns (?rs, None)" by code_simp
  have ff: "processes (scenario False False) = Returns (?rs, None)" by code_simp
  show ?thesis
    by (cases d1; cases d2) (simp_all add: tt tf ft ff)
qed

lemma main_range_eq:
  "main_range run command =
     (if \<exists>p\<in>set run. binary p = command \<and> ppid p = 1 then OK else CRITICAL)"
  by (induction run) auto

section \<open>The claims\<close>

subsection \<open>C1: a name that contains parentheses\<close>

text \<open>
  C1 asks that a name such as \<^verbatim>\<open>a(b)c\<close> be extracted in full, up to the last \<^verbatim>\<open>')'\<close> of
  the record, and that the fields be scanned after that last \<^verbatim>\<open>')'\<close>. \<^verbatim>\<open>Refresh\<close> looks for
  the first \<^verbatim>\<open>')'\<close> after the opening parenthesis instead: on the record of a process
  named \<^verbatim>\<open>a(b)c\<close> it takes \<^verbatim>\<open>a(b\<close> for the name, reads the state from the text \<^verbatim>\<open>") S 1 ..."\<close>
  (so the state is \<^verbatim>\<open>')'\<close>), fails on \<^verbatim>\<open>S\<close> where the parent number is expected, and the
  snapshot of a registry that holds only this process is empty. So is the snapshot of a
  registry that holds only a process named \<^verbatim>\<open>(sd-pam)\<close>.
\<close>

theorem name_with_parens_is_cut:
  "Refresh_data ''300 (a(b)c) S 1 300 300 0 -1''
     \<lparr>pid = 300, ppid = 0, state = 0, pgrp = 0, sid = 0, binary = []\<rparr> =
   Returns (\<lparr>pid = 300, ppid = 0, state = byte CHR '')'', pgrp = 0, sid = 0, binary = ''a(b''\<rparr>,
            Some (ScanError ''expected integer'')) \<and>
   processes (fixture [(''300'', True)] EOF [(300, ''300 (a(b)c) S 1 300 300 0 -1'')]) =
     Returns ([], None) \<and>
   processes (fixture [(''812'', True)] EOF [(812, ''812 ((sd-pam)) S 811 811 811 0 -1'')]) =
     Returns ([], None)"
  by code_simp

subsection \<open>C2: the record of sshd\<close>

text \<open>
  C2. The status text \<^verbatim>\<open>"300 (sshd) S 1 300 300 0 -1 ..."\<close>, whatever follows it, parsed
  for the identifier 300 (from the record \<^verbatim>\<open>newUnixProcess\<close> starts with), gives the record
  with identifier 300, name \<^verbatim>\<open>sshd\<close>, parent 1 and state \<^verbatim>\<open>'S'\<close> (and group and session
  300), with no error.
\<close>

theorem Refresh_sshd_record:
  "Refresh_data (''300 (sshd) S 1 300 300 0 -1'' @ rest)
     \<lparr>pid = 300, ppid = 0, state = 0, pgrp = 0, sid = 0, binary = []\<rparr> =
   Returns (\<lparr>pid = 300, ppid = 1, state = byte CHR ''S'', pgrp = 300, sid = 300,
             binary = ''sshd''\<rparr>, None)"
proof -
  let ?p = "\<lparr>pid = 300, ppid = 0, state = 0, pgrp = 0, sid = 0, binary = []\<rparr>"
  let ?fields = "CHR ''S'' # CHR '' '' # Itoa 1 @ CHR '' '' # Itoa 300 @ CHR '' '' # Itoa 300 @
                   ('' 0 -1'' @ rest)"
  have d: "Refresh_data (''300 '' @ CHR ''('' # ''sshd'' @ CHR '')'' # CHR '' '' # ?fields) ?p =
             Returns (Sscanf ?fields (?p\<lparr>binary := ''sshd''\<rparr>))"
    by (rule Refresh_data_delimited) simp_all
  have s: "Sscanf ?fields (?p\<lparr>binary := ''sshd''\<rparr>) =
             (?p\<lparr>binary := ''sshd'', state := byte CHR ''S'', ppid := 1, pgrp := 300,
                  sid := 300\<rparr>, None)"
    by (rule Sscanf_fields) (simp_all add: int64_def field_end_def byte_def isDigit_def)
  show ?thesis
    using d s by (simp add: Itoa_examples)
qed

subsection \<open>C3: looking up an identifier that does not exist\<close>

text \<open>
  C3. When the registry has no entry for an identifier (\<^verbatim>\<open>os.Stat\<close> fails and
  \<^verbatim>\<open>os.IsNotExist\<close> holds of its error), \<^verbatim>\<open>findProcess\<close>, and so \<^verbatim>\<open>FindProcess\<close>, returns no
  process and no error.
\<close>

theorem findProcess_absent:
  "Stat_proc fs n = Some err \<Longrightarrow> IsNotExist err \<Longrightarrow>
     findProcess fs n = Returns (None, None) \<and> FindProcess fs n = Returns (None, None)"
  by (simp add: findProcess_def FindProcess_def)

text \<open>The identifier 4256 in the registry of init, kthreadd and sshd.\<close>

theorem findProcess_absent_witness:
  "Stat_proc (scenario False False) 4256 = Some ErrNotExist \<and> IsNotExist ErrNotExist \<and>
   findProcess (scenario False False) 4256 = Returns (None, None) \<and>
   FindProcess (scenario False False) 4256 = Returns (None, None)"
proof -
  have s: "Stat_proc (scenario False False) 4256 = Some ErrNotExist"
    by (simp add: scenario_def fixture_def)
  have i: "IsNotExist ErrNotExist"
    by (simp add: IsNotExist_def)
  from findProcess_absent [OF s i] s i show ?thesis by simp
qed

subsection \<open>C4: malformed records\<close>

text \<open>
  C4, as amended. Let a status record that was read have its delimiters: a \<^verbatim>\<open>'('\<close>, after
  it a \<^verbatim>\<open>')'\<close>, and at least one more byte. The text after that byte, read as runes, is
  well formed when it is one character and then three numbers, each after one or more
  blanks; what follows the digits of the third number is not looked at. Parsing returns
  an error exactly when that text is not well formed: so it does whenever the text where
  the parent, the group or the session number is expected does not begin with a number (in
  the range of \<^verbatim>\<open>int\<close>), and whenever the parent or the group number is not followed by a
  blank. When the text is well formed, the record holds the character and the three
  values. \<^verbatim>\<open>findProcess\<close> returns the error to its caller, with the record as far as it was
  filled, and the loop of \<^verbatim>\<open>processes\<close> goes on to the next entry with its results
  unchanged. Nothing is said of a record that lacks a delimiter.
\<close>

theorem malformed_record_is_error:
  assumes "CHR ''('' \<notin> set pre" and "CHR '')'' \<notin> set name"
    and "ReadFile_stat fs n = Inr (pre @ CHR ''('' # name @ CHR '')'' # sep # rest)"
  shows "\<exists>p' err. newUnixProcess fs n = Returns (p', err) \<and>
           (err = None \<longleftrightarrow> (\<exists>c i j k. fields (runes rest) c i j k)) \<and>
           (\<forall>c i j k. fields (runes rest) c i j k \<longrightarrow>
              p' = \<lparr>pid = n, ppid = i, state = c, pgrp = j, sid = k, binary = name\<rparr>) \<and>
           (Stat_proc fs n = None \<longrightarrow> findProcess fs n = Returns (Some p', err)) \<and>
           (err \<noteq> None \<and> 0 \<le> n \<and> int64 n \<longrightarrow>
              (\<forall>fis acc. range_fis fs (\<lparr>Name = Itoa n, IsDir = True\<rparr> # fis) acc =
                           range_fis fs fis acc))"
proof -
  let ?p = "\<lparr>pid = n, ppid = 0, state = 0, pgrp = 0, sid = 0, binary = []\<rparr>"
  obtain p' err where s: "Sscanf rest (?p\<lparr>binary := name\<rparr>) = (p', err)"
    by (cases "Sscanf rest (?p\<lparr>binary := name\<rparr>)")
  have "Refresh_data (pre @ CHR ''('' # name @ CHR '')'' # sep # rest) ?p =
          Returns (Sscanf rest (?p\<lparr>binary := name\<rparr>))"
    by (rule Refresh_data_delimited [OF assms(1,2)])
  with s assms(3) have n: "newUnixProcess fs n = Returns (p', err)"
    by (simp add: newUnixProcess_def Refresh_def)
  have ok: "err = None \<and> p' = \<lparr>pid = n, ppid = i, state = c, pgrp = j, sid = k, binary = name\<rparr>"
    if f: "fields (runes rest) c i j k" for c i j k
    using Sscanf_fields_ok [OF f, of "?p\<lparr>binary := name\<rparr>"] s by simp
  have ex: "\<exists>c i j k. fields (runes rest) c i j k" if e: "err = None"
    using s unfolding e by (rule Sscanf_ok_fields)
  have f: "findProcess fs n = Returns (Some p', err)" if "Stat_proc fs n = None"
    using that n by (simp add: findProcess_def)
  have r: "range_fis fs (\<lparr>Name = Itoa n, IsDir = True\<rparr> # fis) acc = range_fis fs fis acc"
    if h: "err \<noteq> None \<and> 0 \<le> n \<and> int64 n" for fis acc
  proof -
    from h obtain e where e: "err = Some e" by auto
    obtain c cs where c: "Itoa n = c # cs" "digit_byte c"
      using Itoa_nonneg_digit [of n] h by blast
    have pi: "ParseInt (Itoa n) 0 = Inr n"
      using h by (intro ParseInt_Itoa) (simp_all add: int64_def)
    show ?thesis
      using range_fis_skip [of "\<lparr>Name = Itoa n, IsDir = True\<rparr>" c cs n fs p' e "[]" fis acc]
        c pi n e
      by simp
  qed
  have A: "err = None \<longleftrightarrow> (\<exists>c i j k. fields (runes rest) c i j k)"
    using ok ex by blast
  have B: "\<forall>c i j k. fields (runes rest) c i j k \<longrightarrow>
              p' = \<lparr>pid = n, ppid = i, state = c, pgrp = j, sid = k, binary = name\<rparr>"
    using ok by blast
  have C: "Stat_proc fs n = None \<longrightarrow> findProcess fs n = Returns (Some p', err)"
    using f by blast
  have D: "err \<noteq> None \<and> 0 \<le> n \<and> int64 n \<longrightarrow>
              (\<forall>fis acc. range_fis fs (\<lparr>Name = Itoa n, IsDir = True\<rparr> # fis) acc =
                           range_fis fs fis acc)"
    using r by blast
  show ?thesis
    by (rule exI [of _ p'], rule exI [of _ err]) (intro conjI n A B C D)
qed

text \<open>
  The record \<^verbatim>\<open>"300 (sshd) S 1 x 300"\<close>, where \<^verbatim>\<open>x\<close> stands for the group number: an error,
  returned by the lookup and skipped by the loop. The text \<^verbatim>\<open>"S 1 300 12abc"\<close> is well
  formed, with the character \<^verbatim>\<open>S\<close> and the values 1, 300 and 12.
\<close>

theorem malformed_record_is_error_witness:
  "findProcess (fixture [(''300'', True)] EOF [(300, ''300 (sshd) S 1 x 300'')]) 300 =
     Returns (Some \<lparr>pid = 300, ppid = 1, state = 83, pgrp = 0, sid = 0, binary = ''sshd''\<rparr>,
              Some (ScanError ''expected integer'')) \<and>
   range_fis (fixture [(''300'', True)] EOF [(300, ''300 (sshd) S 1 x 300'')])
     [\<lparr>Name = ''300'', IsDir = True\<rparr>] [] = Returns [] \<and>
   \<not> (\<exists>c i j k. fields (runes ''S 1 x 300'') c i j k) \<and>
   fields (runes ''S 1 300 12abc'') 83 1 300 12"
proof -
  let ?fs = "fixture [(''300'', True)] EOF [(300, ''300 (sshd) S 1 x 300'')]"
  let ?gs = "fixture [(''300'', True)] EOF [(300, ''300 (sshd) S 1 300 12abc'')]"
  let ?e = "ScanError ''expected integer''"
  let ?P = "\<lparr>pid = 300, ppid = 1, state = 83, pgrp = 0, sid = 0, binary = ''sshd''\<rparr>"
  let ?Q = "\<lparr>pid = 300, ppid = 1, state = 83, pgrp = 300, sid = 12, binary = ''sshd''\<rparr>"
  have 1: "CHR ''('' \<notin> set ''300 ''" by simp
  have 2: "CHR '')'' \<notin> set ''sshd''" by simp
  have 3: "ReadFile_stat ?fs 300 =
             Inr (''300 '' @ CHR ''('' # ''sshd'' @ CHR '')'' # CHR '' '' # ''S 1 x 300'')"
    by (simp add: fixture_def)
  have 4: "ReadFile_stat ?gs 300 =
             Inr (''300 '' @ CHR ''('' # ''sshd'' @ CHR '')'' # CHR '' '' # ''S 1 300 12abc'')"
    by (simp add: fixture_def)
  have v: "newUnixProcess ?fs 300 = Returns (?P, Some ?e)"
    by code_simp
  have w: "newUnixProcess ?gs 300 = Returns (?Q, None)"
    by code_simp
  have s: "Stat_proc ?fs 300 = None"
    by (simp add: fixture_def)
  have i: "0 \<le> (300::int) \<and> int64 300"
    by (simp add: int64_def)
  from malformed_record_is_error [OF 1 2 3]
  obtain p' err where a: "newUnixProcess ?fs 300 = Returns (p', err)"
    and b: "err = None \<longleftrightarrow> (\<exists>c i j k. fields (runes ''S 1 x 300'') c i j k)"
    and c: "Stat_proc ?fs 300 = None \<longrightarrow> findProcess ?fs 300 = Returns (Some p', err)"
    and d: "err \<noteq> None \<and> 0 \<le> (300::int) \<and> int64 300 \<longrightarrow>
              (\<forall>fis acc. range_fis ?fs (\<lparr>Name = Itoa 300, IsDir = True\<rparr> # fis) acc =
                           range_fis ?fs fis acc)"
    by (elim exE conjE)
  from a v have pe: "p' = ?P" "err = Some ?e"
    by simp_all
  have f: "findProcess ?fs 300 = Returns (Some ?P, Some ?e)"
    using c [THEN mp, OF s] unfolding pe .
  have en: "err \<noteq> None \<and> 0 \<le> (300::int) \<and> int64 300"
    using i by (simp add: pe)
  have "range_fis ?fs (\<lparr>Name = Itoa 300, IsDir = True\<rparr> # []) [] = range_fis ?fs [] []"
    by (rule d [THEN mp, OF en, THEN spec, THEN spec])
  then have g: "range_fis ?fs [\<lparr>Name = ''300'', IsDir = True\<rparr>] [] = Returns []"
    by (simp only: Itoa_examples range_fis.simps)
  have nf: "\<not> (\<exists>c i j k. fields (runes ''S 1 x 300'') c i j k)"
    using b pe(2) by simp
  from malformed_record_is_error [OF 1 2 4]
  obtain q' err' where a2: "newUnixProcess ?gs 300 = Returns (q', err')"
    and b2: "err' = None \<longleftrightarrow> (\<exists>c i j k. fields (runes ''S 1 300 12abc'') c i j k)"
    and c2: "\<forall>c i j k. fields (runes ''S 1 300 12abc'') c i j k \<longrightarrow>
               q' = \<lparr>pid = 300, ppid = i, state = c, pgrp = j, sid = k, binary = ''sshd''\<rparr>"
    by (elim exE conjE)
  from a2 w have qe: "q' = ?Q" "err' = None"
    by simp_all
  with b2 have "\<exists>c i j k. fields (runes ''S 1 300 12abc'') c i j k"
    by simp
  then obtain c i j k where F: "fields (runes ''S 1 300 12abc'') c i j k"
    by blast
  from c2 [THEN spec, THEN spec, THEN spec, THEN spec, THEN mp, OF F] qe(1)
  have "c = 83 \<and> i = 1 \<and> j = 300 \<and> k = 12"
    by simp
  with F have ok: "fields (runes ''S 1 300 12abc'') 83 1 300 12"
    by simp
  show ?thesis
    by (intro conjI f g nf ok)
qed

text \<open>
  C4 as it was stated fails in three ways. Without the \<^verbatim>\<open>'('\<close> the text before the first
  \<^verbatim>\<open>')'\<close> is taken for the name and the parse succeeds with no error. Without a \<^verbatim>\<open>')'\<close> the
  slice expression \<^verbatim>\<open>data[binStart : binStart+binEnd]\<close> panics, which is no error value.
  And the non-numeric text \<^verbatim>\<open>12abc\<close> where the session number is expected is read as 12
  with no error: the scan ends with the digits of the fourth operand, and the record is
  part of the snapshot.
\<close>

theorem malformed_record_without_error:
  "Refresh_data ''300 sshd) S 1 300 300''
     \<lparr>pid = 300, ppid = 0, state = 0, pgrp = 0, sid = 0, binary = []\<rparr> =
   Returns (\<lparr>pid = 300, ppid = 1, state = byte CHR ''S'', pgrp = 300, sid = 300,
             binary = ''300 sshd''\<rparr>, None) \<and>
   Refresh_data ''300 (sshd S 1 300 300''
     \<lparr>pid = 300, ppid = 0, state = 0, pgrp = 0, sid = 0, binary = []\<rparr> = Panics \<and>
   Refresh_data ''300 (sshd) S 1 300 12abc''
     \<lparr>pid = 300, ppid = 0, state = 0, pgrp = 0, sid = 0, binary = []\<rparr> =
   Returns (\<lparr>pid = 300, ppid = 1, state = byte CHR ''S'', pgrp = 300, sid = 12,
             binary = ''sshd''\<rparr>, None) \<and>
   processes (fixture [(''300'', True)] EOF [(300, ''300 (sshd) S 1 300 12abc'')]) =
     Returns ([\<lparr>pid = 300, ppid = 1, state = byte CHR ''S'', pgrp = 300, sid = 12,
                binary = ''sshd''\<rparr>], None)"
  by code_simp

subsection \<open>C5: no partly filled record\<close>

text \<open>
  C5, as amended. A parse that returns no error has taken the name, the state, the
  parent, the group and the session from the status text: the record it returns does not
  depend on what these fields held before (only the identifier is the caller's). Every
  record of a snapshot, and every record that \<^verbatim>\<open>findProcess\<close> returns without an error, is
  the result of such a parse of the status file of its identifier. Nothing is said of the
  record that comes with an error, and the name may be empty.
\<close>

theorem parsed_record_complete:
  "(Refresh_data data p = Returns (p', None) \<longrightarrow>
      Refresh_data data q = Returns (p'\<lparr>pid := pid q\<rparr>, None)) \<and>
   (processes fs = Returns (rs, None) \<longrightarrow>
      (\<forall>r\<in>set rs. \<exists>data. ReadFile_stat fs (pid r) = Inr data \<and>
          Refresh_data data \<lparr>pid = pid r, ppid = 0, state = 0, pgrp = 0, sid = 0, binary = []\<rparr> =
            Returns (r, None))) \<and>
   (findProcess fs n = Returns (Some r', None) \<longrightarrow>
      (\<exists>data. ReadFile_stat fs n = Inr data \<and>
          Refresh_data data \<lparr>pid = n, ppid = 0, state = 0, pgrp = 0, sid = 0, binary = []\<rparr> =
            Returns (r', None)))"
proof (intro conjI impI ballI)
  assume "Refresh_data data p = Returns (p', None)"
  then show "Refresh_data data q = Returns (p'\<lparr>pid := pid q\<rparr>, None)"
    by (rule Refresh_data_independent)
next
  fix r
  assume s: "processes fs = Returns (rs, None)" and r: "r \<in> set rs"
  from s obtain d where "readdir_loop fs d [] = Returns (rs, None)"
    by (auto simp: processes_def split: sum.splits)
  from readdir_loop_mem [OF this r] obtain n where n: "newUnixProcess fs n = Returns (r, None)"
    by auto
  with newUnixProcess_pid [OF n] have "newUnixProcess fs (pid r) = Returns (r, None)"
    by simp
  then show "\<exists>data. ReadFile_stat fs (pid r) = Inr data \<and>
          Refresh_data data \<lparr>pid = pid r, ppid = 0, state = 0, pgrp = 0, sid = 0, binary = []\<rparr> =
            Returns (r, None)"
    by (rule newUnixProcess_None)
next
  assume "findProcess fs n = Returns (Some r', None)"
  then have "newUnixProcess fs n = Returns (r', None)"
    by (auto simp: findProcess_def split: option.splits if_splits go.splits)
  then show "\<exists>data. ReadFile_stat fs n = Inr data \<and>
          Refresh_data data \<lparr>pid = n, ppid = 0, state = 0, pgrp = 0, sid = 0, binary = []\<rparr> =
            Returns (r', None)"
    by (rule newUnixProcess_None)
qed

text \<open>
  The record of sshd parsed into a record that held other values, and the records of
  sshd and kthreadd in the registry of the scenario.
\<close>

theorem parsed_record_complete_witness:
  "Refresh_data ''300 (sshd) S 1 300 300 0 -1''
      \<lparr>pid = 7, ppid = 8, state = 9, pgrp = 10, sid = 11, binary = ''old''\<rparr> =
     Returns (\<lparr>pid = 7, ppid = 1, state = 83, pgrp = 300, sid = 300, binary = ''sshd''\<rparr>, None) \<and>
   (\<exists>data. ReadFile_stat (scenario True True) 300 = Inr data \<and>
      Refresh_data data \<lparr>pid = 300, ppid = 0, state = 0, pgrp = 0, sid = 0, binary = []\<rparr> =
        Returns (\<lparr>pid = 300, ppid = 1, state = 83, pgrp = 300, sid = 300, binary = ''sshd''\<rparr>, None)) \<and>
   (\<exists>data. ReadFile_stat (scenario True True) 2 = Inr data \<and>
      Refresh_data data \<lparr>pid = 2, ppid = 0, state = 0, pgrp = 0, sid = 0, binary = []\<rparr> =
        Returns (\<lparr>pid = 2, ppid = 0, state = 83, pgrp = 0, sid = 0, binary = ''kthreadd''\<rparr>, None))"
proof -
  let ?sshd = "\<lparr>pid = 300, ppid = 1, state = 83, pgrp = 300, sid = 300, binary = ''sshd''\<rparr>"
  let ?kthreadd = "\<lparr>pid = 2, ppid = 0, state = 83, pgrp = 0, sid = 0, binary = ''kthreadd''\<rparr>"
  let ?rs = "[\<lparr>pid = 1, ppid = 0, state = 83, pgrp = 1, sid = 1, binary = ''init''\<rparr>, ?kthreadd, ?sshd]"
  let ?old = "\<lparr>pid = 7, ppid = 8, state = 9, pgrp = 10, sid = 11, binary = ''old''\<rparr>"
  have p: "Refresh_data ''300 (sshd) S 1 300 300 0 -1''
             \<lparr>pid = 300, ppid = 0, state = 0, pgrp = 0, sid = 0, binary = []\<rparr> = Returns (?sshd, None)"
    by code_simp
  have s: "processes (scenario True True) = Returns (?rs, None)"
    by (rule scenario_snapshot)
  have f: "findProcess (scenario True True) 2 = Returns (Some ?kthreadd, None)"
    by code_simp
  note t = parsed_record_complete [of "''300 (sshd) S 1 300 300 0 -1''"
      "\<lparr>pid = 300, ppid = 0, state = 0, pgrp = 0, sid = 0, binary = []\<rparr>" ?sshd ?old
      "scenario True True" ?rs 2 ?kthreadd]
  have 1: "Refresh_data ''300 (sshd) S 1 300 300 0 -1'' ?old =
             Returns (\<lparr>pid = 7, ppid = 1, state = 83, pgrp = 300, sid = 300, binary = ''sshd''\<rparr>, None)"
    using t p by simp
  have 2: "\<exists>data. ReadFile_stat (scenario True True) 300 = Inr data \<and>
      Refresh_data data \<lparr>pid = 300, ppid = 0, state = 0, pgrp = 0, sid = 0, binary = []\<rparr> =
        Returns (?sshd, None)"
    using t s by simp
  have 3: "\<exists>data. ReadFile_stat (scenario True True) 2 = Inr data \<and>
      Refresh_data data \<lparr>pid = 2, ppid = 0, state = 0, pgrp = 0, sid = 0, binary = []\<rparr> =
        Returns (?kthreadd, None)"
    using t f by simp
  from 1 2 3 show ?thesis by simp
qed

text \<open>
  C5 as it was stated fails: \<^verbatim>\<open>findProcess\<close> returns, with the error of a failed parse, the
  record filled up to the failure (here the name and the state, but no parent), and a
  record with an empty name is parsed without an error.
\<close>

theorem lookup_returns_partial_record:
  "findProcess (fixture [(''300'', True)] EOF [(300, ''300 (sshd) S x 300 300'')]) 300 =
     Returns (Some \<lparr>pid = 300, ppid = 0, state = 83, pgrp = 0, sid = 0, binary = ''sshd''\<rparr>,
              Some (ScanError ''expected integer'')) \<and>
   findProcess (fixture [(''300'', True)] EOF [(300, ''300 () S 1 300 300'')]) 300 =
     Returns (Some \<lparr>pid = 300, ppid = 1, state = 83, pgrp = 300, sid = 300, binary = []\<rparr>, None)"
  by code_simp

subsection \<open>C6: failures of single identifiers in a snapshot\<close>

text \<open>
  C6, as amended. When the parse of a listed process returns an error (its status file
  could not be read, or the scan failed), \<^verbatim>\<open>processes\<close> behaves exactly as on the registry
  without that entry. When \<^verbatim>\<open>processes\<close> returns an error, it returns no records, and
  the error is the one of opening the registry or of listing it. Every record it returns
  comes from a parse that returned no error. Nothing is said of a record on which the
  parser panics.
\<close>

theorem snapshot_skips_failures:
  "(Open_proc fs = Inr (pre @ (xs @ fi # ys, err) # post) \<longrightarrow>
      IsDir fi \<and> Name fi = c # cs \<and> digit_byte c \<and> ParseInt (Name fi) 0 = Inr n \<and>
      newUnixProcess fs n = Returns (q, Some e) \<longrightarrow>
      processes fs = processes (fs\<lparr>Open_proc := Inr (pre @ (xs @ ys, err) # post)\<rparr>)) \<and>
   (processes fs = Returns (rs, Some e') \<longrightarrow>
      rs = [] \<and> (Open_proc fs = Inl e' \<or> (\<exists>d. Open_proc fs = Inr d \<and> listing_error d = Some e'))) \<and>
   (processes fs = Returns (rs, None) \<longrightarrow>
      (\<forall>p\<in>set rs. newUnixProcess fs (pid p) = Returns (p, None)))"
proof (intro conjI impI ballI)
  assume o: "Open_proc fs = Inr (pre @ (xs @ fi # ys, err) # post)"
    and f: "IsDir fi \<and> Name fi = c # cs \<and> digit_byte c \<and> ParseInt (Name fi) 0 = Inr n \<and>
      newUnixProcess fs n = Returns (q, Some e)"
  have "range_fis fs (xs @ fi # ys) acc = range_fis fs (xs @ ys) acc" for acc
    using f by (intro range_fis_skip) auto
  from readdir_loop_batch [of fs "xs @ fi # ys" "xs @ ys", OF this]
  show "processes fs = processes (fs\<lparr>Open_proc := Inr (pre @ (xs @ ys, err) # post)\<rparr>)"
    using o by (simp add: processes_def)
next
  assume r: "processes fs = Returns (rs, Some e')"
  show "rs = []"
    using r by (auto simp: processes_def split: sum.splits dest: readdir_loop_error)
  show "Open_proc fs = Inl e' \<or> (\<exists>d. Open_proc fs = Inr d \<and> listing_error d = Some e')"
    using r by (auto simp: processes_def split: sum.splits dest: readdir_loop_error)
next
  fix p
  assume r: "processes fs = Returns (rs, None)" and p: "p \<in> set rs"
  from r obtain d where "readdir_loop fs d [] = Returns (rs, None)"
    by (auto simp: processes_def split: sum.splits)
  from readdir_loop_mem [OF this p] obtain n where n: "newUnixProcess fs n = Returns (p, None)"
    by auto
  with newUnixProcess_pid [OF n] show "newUnixProcess fs (pid p) = Returns (p, None)"
    by simp
qed

text \<open>
  A registry in which the process 9 has vanished (it is listed, its status file is gone);
  the record of sshd in the scenario; a registry whose listing fails.
\<close>

theorem snapshot_skips_failures_witness:
  "processes (fixture [(''1'', True), (''9'', True), (''300'', True)] EOF
                [(1, ''1 (init) S 0 1 1''), (300, ''300 (sshd) S 1 300 300'')]) =
   processes (fixture [(''1'', True), (''300'', True)] EOF
                [(1, ''1 (init) S 0 1 1''), (300, ''300 (sshd) S 1 300 300'')]) \<and>
   newUnixProcess (scenario True True) 300 =
     Returns (\<lparr>pid = 300, ppid = 1, state = 83, pgrp = 300, sid = 300, binary = ''sshd''\<rparr>, None) \<and>
   processes (scenario True True\<lparr>Open_proc := Inr [([], Some (ErrOS 5))]\<rparr>) = Returns ([], Some (ErrOS 5)) \<and>
   listing_error [([], Some (ErrOS 5))] = Some (ErrOS 5)"
proof -
  let ?files = "[(1, ''1 (init) S 0 1 1''), (300, ''300 (sshd) S 1 300 300'')]"
  let ?fs = "fixture [(''1'', True), (''9'', True), (''300'', True)] EOF ?files"
  let ?fi = "\<lparr>Name = ''9'', IsDir = True\<rparr>"
  let ?q = "\<lparr>pid = 9, ppid = 0, state = 0, pgrp = 0, sid = 0, binary = []\<rparr>"
  have o: "Open_proc ?fs =
             Inr ([] @ ([\<lparr>Name = ''1'', IsDir = True\<rparr>] @ ?fi # [\<lparr>Name = ''300'', IsDir = True\<rparr>], None)
                    # [([], Some EOF)])"
    by (simp add: fixture_def)
  have f: "IsDir ?fi \<and> Name ?fi = CHR ''9'' # [] \<and> digit_byte CHR ''9'' \<and>
           ParseInt (Name ?fi) 0 = Inr 9 \<and> newUnixProcess ?fs 9 = Returns (?q, Some ErrNotExist)"
    by code_simp
  have u: "?fs\<lparr>Open_proc := Inr ([] @ ([\<lparr>Name = ''1'', IsDir = True\<rparr>] @ [\<lparr>Name = ''300'', IsDir = True\<rparr>], None)
                    # [([], Some EOF)])\<rparr> =
           fixture [(''1'', True), (''300'', True)] EOF ?files"
    by (simp add: fixture_def)
  have 1: "processes ?fs = processes (fixture [(''1'', True), (''300'', True)] EOF ?files)"
    using snapshot_skips_failures [of ?fs "[]" "[\<lparr>Name = ''1'', IsDir = True\<rparr>]" ?fi
            "[\<lparr>Name = ''300'', IsDir = True\<rparr>]" None "[([], Some EOF)]" "CHR ''9''" "[]" 9 ?q ErrNotExist]
          o f u
    by simp
  let ?rs = "[\<lparr>pid = 1, ppid = 0, state = 83, pgrp = 1, sid = 1, binary = ''init''\<rparr>,
              \<lparr>pid = 2, ppid = 0, state = 83, pgrp = 0, sid = 0, binary = ''kthreadd''\<rparr>,
              \<lparr>pid = 300, ppid = 1, state = 83, pgrp = 300, sid = 300, binary = ''sshd''\<rparr>]"
  have s: "processes (scenario True True) = Returns (?rs, None)"
    by (rule scenario_snapshot)
  have 2: "newUnixProcess (scenario True True) 300 =
     Returns (\<lparr>pid = 300, ppid = 1, state = 83, pgrp = 300, sid = 300, binary = ''sshd''\<rparr>, None)"
    using snapshot_skips_failures [of "scenario True True" _ _ _ _ _ _ _ _ _ _ _ ?rs] s
    by simp
  let ?g = "scenario True True\<lparr>Open_proc := Inr [([], Some (ErrOS 5))]\<rparr>"
  have g: "processes ?g = Returns ([], Some (ErrOS 5))"
    by (simp add: processes_def)
  have 3: "listing_error [([], Some (ErrOS 5))] = Some (ErrOS 5)"
    using snapshot_skips_failures [of ?g _ _ _ _ _ _ _ _ _ _ _ "[]" "ErrOS 5"] g
    by simp
  from 1 2 g 3 show ?thesis by simp
qed

text \<open>
  C6 as it was stated fails on a malformed record that has no \<^verbatim>\<open>')'\<close>: the registry can be
  opened and listed, and the snapshot ends in a panic, with the record of sshd lost.
\<close>

theorem snapshot_panics_on_truncated_record:
  "processes (fixture [(''7'', True), (''300'', True)] EOF
                [(7, ''7 (x''), (300, ''300 (sshd) S 1 300 300 0 -1'')]) = Panics"
  by code_simp

subsection \<open>C7: only directories with a decimal name\<close>

text \<open>
  C7. Every record of a snapshot has the identifier of a listed entry that is a
  directory and whose name is a non-empty string of decimal digits. For the registry
  \<^verbatim>\<open>{"1", "2", "self", "42abc", "300"}\<close> of the scenario, whether or not \<^verbatim>\<open>self\<close> and
  \<^verbatim>\<open>42abc\<close> are directories, the snapshot is exactly the three records of init, kthreadd
  and sshd.
\<close>

theorem snapshot_numeric_directories:
  "(Open_proc fs = Inr d \<longrightarrow> processes fs = Returns (rs, None) \<longrightarrow>
      (\<forall>p\<in>set rs. \<exists>fi\<in>set (listed d).
          IsDir fi \<and> Name fi \<noteq> [] \<and> (\<forall>c\<in>set (Name fi). digit_byte c) \<and>
          pid p = decimal (Name fi))) \<and>
   processes (scenario d1 d2) =
     Returns ([\<lparr>pid = 1, ppid = 0, state = 83, pgrp = 1, sid = 1, binary = ''init''\<rparr>,
               \<lparr>pid = 2, ppid = 0, state = 83, pgrp = 0, sid = 0, binary = ''kthreadd''\<rparr>,
               \<lparr>pid = 300, ppid = 1, state = 83, pgrp = 300, sid = 300, binary = ''sshd''\<rparr>],
              None)"
proof (intro conjI impI ballI)
  fix p
  assume o: "Open_proc fs = Inr d" and r: "processes fs = Returns (rs, None)" and p: "p \<in> set rs"
  from o r have "readdir_loop fs d [] = Returns (rs, None)"
    by (simp add: processes_def)
  from readdir_loop_mem [OF this p] obtain fi n where
    fi: "fi \<in> set (listed d)" "IsDir fi" "Name fi \<noteq> []" "digit_byte (hd (Name fi))"
      and n: "ParseInt (Name fi) 0 = Inr n" "newUnixProcess fs n = Returns (p, None)"
    by auto
  obtain c cs where nm: "Name fi = c # cs"
    using fi(3) by (cases "Name fi") auto
  from ParseInt_digits [of c cs 0 n] n(1) fi(4) nm
  have "(\<forall>x\<in>set (Name fi). digit_byte x) \<and> n = decimal (Name fi)"
    by simp
  moreover have "pid p = n"
    by (rule newUnixProcess_pid [OF n(2)])
  ultimately show "\<exists>fi\<in>set (listed d).
          IsDir fi \<and> Name fi \<noteq> [] \<and> (\<forall>c\<in>set (Name fi). digit_byte c) \<and>
          pid p = decimal (Name fi)"
    using fi by blast
next
  show "processes (scenario d1 d2) =
     Returns ([\<lparr>pid = 1, ppid = 0, state = 83, pgrp = 1, sid = 1, binary = ''init''\<rparr>,
               \<lparr>pid = 2, ppid = 0, state = 83, pgrp = 0, sid = 0, binary = ''kthreadd''\<rparr>,
               \<lparr>pid = 300, ppid = 1, state = 83, pgrp = 300, sid = 300, binary = ''sshd''\<rparr>],
              None)"
    by (rule scenario_snapshot)
qed

text \<open>The entry \<^verbatim>\<open>300\<close> of the scenario, for the record of sshd.\<close>

theorem snapshot_numeric_directories_witness:
  "processes (scenario True True) =
     Returns ([\<lparr>pid = 1, ppid = 0, state = 83, pgrp = 1, sid = 1, binary = ''init''\<rparr>,
               \<lparr>pid = 2, ppid = 0, state = 83, pgrp = 0, sid = 0, binary = ''kthreadd''\<rparr>,
               \<lparr>pid = 300, ppid = 1, state = 83, pgrp = 300, sid = 300, binary = ''sshd''\<rparr>],
              None) \<and>
   (\<exists>fi\<in>set [\<lparr>Name = ''1'', IsDir = True\<rparr>, \<lparr>Name = ''2'', IsDir = True\<rparr>,
               \<lparr>Name = ''self'', IsDir = True\<rparr>, \<lparr>Name = ''42abc'', IsDir = True\<rparr>,
               \<lparr>Name = ''300'', IsDir = True\<rparr>].
       IsDir fi \<and> Name fi \<noteq> [] \<and> list_all digit_byte (Name fi) \<and> decimal (Name fi) = 300)"
proof -
  let ?d = "[([\<lparr>Name = ''1'', IsDir = True\<rparr>, \<lparr>Name = ''2'', IsDir = True\<rparr>,
               \<lparr>Name = ''self'', IsDir = True\<rparr>, \<lparr>Name = ''42abc'', IsDir = True\<rparr>,
               \<lparr>Name = ''300'', IsDir = True\<rparr>], None), ([], Some EOF)]"
  let ?rs = "[\<lparr>pid = 1, ppid = 0, state = 83, pgrp = 1, sid = 1, binary = ''init''\<rparr>,
               \<lparr>pid = 2, ppid = 0, state = 83, pgrp = 0, sid = 0, binary = ''kthreadd''\<rparr>,
               \<lparr>pid = 300, ppid = 1, state = 83, pgrp = 300, sid = 300, binary = ''sshd''\<rparr>]"
  have o: "Open_proc (scenario True True) = Inr ?d"
    by (simp add: scenario_def fixture_def)
  note t = snapshot_numeric_directories [of "scenario True True" ?d ?rs True True]
  from t have r: "processes (scenario True True) = Returns (?rs, None)"
    by (rule conjunct2)
  from t o r have "\<forall>p\<in>set ?rs. \<exists>fi\<in>set (listed ?d).
          IsDir fi \<and> Name fi \<noteq> [] \<and> (\<forall>c\<in>set (Name fi). digit_byte c) \<and>
          pid p = decimal (Name fi)"
    by blast
  then have "\<exists>fi\<in>set (listed ?d).
          IsDir fi \<and> Name fi \<noteq> [] \<and> (\<forall>c\<in>set (Name fi). digit_byte c) \<and>
          decimal (Name fi) = 300"
    by simp
  then show ?thesis
    using r by (simp add: list_all_iff)
qed

subsection \<open>C8: the exit codes\<close>

text \<open>
  C8. With arguments other than \<^verbatim>\<open>-c name\<close> (a non-empty name) the command exits with 3;
  with such arguments it exits with 3 when the snapshot returns an error, with 0 when
  some record of the snapshot has the name and the parent 1, and with 2 when none has.
  The codes are \<^verbatim>\<open>OK\<close> = 0, \<^verbatim>\<open>WARNING\<close> = 1, \<^verbatim>\<open>CRITICAL\<close> = 2 and \<^verbatim>\<open>UNKNOWN\<close> = 3.
\<close>

theorem main_exit_codes:
  "(length args \<noteq> 3 \<or> args ! 1 \<noteq> ''-c'' \<or> args ! 2 = [] \<longrightarrow> main args fs = Returns 3) \<and>
   (length args = 3 \<and> args ! 1 = ''-c'' \<and> args ! 2 \<noteq> [] \<longrightarrow>
      (processes fs = Returns (rs, Some e) \<longrightarrow> main args fs = Returns 3) \<and>
      (processes fs = Returns (rs, None) \<longrightarrow>
         (if \<exists>p\<in>set rs. binary p = args ! 2 \<and> ppid p = 1
          then main args fs = Returns 0 else main args fs = Returns 2))) \<and>
   OK = 0 \<and> WARNING = 1 \<and> CRITICAL = 2 \<and> UNKNOWN = 3"
  by (auto simp: main_def Command_def Processes_def help_exit_def main_range_eq
        OK_def WARNING_def CRITICAL_def UNKNOWN_def)

text \<open>
  In the scenario: sshd runs under init (0); init itself has the parent 0 (2); a missing
  \<^verbatim>\<open>-c\<close> (3); a registry that cannot be opened (3).
\<close>

theorem main_exit_codes_witness:
  "main [''check_proc'', ''-c'', ''sshd''] (scenario False False) = Returns 0 \<and>
   main [''check_proc'', ''-c'', ''init''] (scenario False False) = Returns 2 \<and>
   main [''check_proc'', ''sshd''] (scenario False False) = Returns 3 \<and>
   main [''check_proc'', ''-c'', ''sshd''] (scenario False False\<lparr>Open_proc := Inl (ErrOS 13)\<rparr>) =
     Returns 3"
proof -
  let ?rs = "[\<lparr>pid = 1, ppid = 0, state = 83, pgrp = 1, sid = 1, binary = ''init''\<rparr>,
              \<lparr>pid = 2, ppid = 0, state = 83, pgrp = 0, sid = 0, binary = ''kthreadd''\<rparr>,
              \<lparr>pid = 300, ppid = 1, state = 83, pgrp = 300, sid = 300, binary = ''sshd''\<rparr>]"
  have s: "processes (scenario False False) = Returns (?rs, None)"
    by (rule scenario_snapshot)
  have f: "processes (scenario False False\<lparr>Open_proc := Inl (ErrOS 13)\<rparr>) =
             Returns ([], Some (ErrOS 13))"
    by (simp add: processes_def)
  have 1: "main [''check_proc'', ''-c'', ''sshd''] (scenario False False) = Returns 0"
    using main_exit_codes [of "[''check_proc'', ''-c'', ''sshd'']" "scenario False False" ?rs] s
    by simp
  have 2: "main [''check_proc'', ''-c'', ''init''] (scenario False False) = Returns 2"
    using main_exit_codes [of "[''check_proc'', ''-c'', ''init'']" "scenario False False" ?rs] s
    by simp
  have 3: "main [''check_proc'', ''sshd''] (scenario False False) = Returns 3"
    using main_exit_codes [of "[''check_proc'', ''sshd'']" "scenario False False"]
    by simp
  have 4: "main [''check_proc'', ''-c'', ''sshd'']
             (scenario False False\<lparr>Open_proc := Inl (ErrOS 13)\<rparr>) = Returns 3"
    using main_exit_codes [of "[''check_proc'', ''-c'', ''sshd'']"
            "scenario False False\<lparr>Open_proc := Inl (ErrOS 13)\<rparr>" "[]" "ErrOS 13"] f
    by simp
  from 1 2 3 4 show ?thesis by simp
qed

subsection \<open>C9: the round trip\<close>

text \<open>
  C9 asks that the four core fields of every valid record come back from the parser. The
  record of the process 77 whose name is \<^verbatim>\<open>sshd) S 1 1 1\<close>, in state \<^verbatim>\<open>R\<close> with parent 5, is
  a valid record of the documented format; \<^verbatim>\<open>Refresh\<close> parses it without an error into
  the name \<^verbatim>\<open>sshd\<close>, the state \<^verbatim>\<open>S\<close> and the parent 1.
\<close>

theorem roundtrip_fails_for_paren_name:
  "render 77 ''sshd) S 1 1 1'' CHR ''R'' 5 77 77 = ''77 (sshd) S 1 1 1) R 5 77 77'' \<and>
   Refresh_data (render 77 ''sshd) S 1 1 1'' CHR ''R'' 5 77 77)
     \<lparr>pid = 77, ppid = 0, state = 0, pgrp = 0, sid = 0, binary = []\<rparr> =
   Returns (\<lparr>pid = 77, ppid = 1, state = byte CHR ''S'', pgrp = 1, sid = 1, binary = ''sshd''\<rparr>,
            None)"
  by code_simp

subsection \<open>C10: an error while listing the registry\<close>

text \<open>
  C10. When a call of \<^verbatim>\<open>Readdir\<close> returns an error other than \<^verbatim>\<open>io.EOF\<close>, after earlier
  calls whose entries were parsed into the records \<open>rs\<close>, \<^verbatim>\<open>processes\<close> returns that error
  and no record.
\<close>

theorem processes_listing_error:
  assumes "Open_proc fs = Inr (pre @ (fis, Some err) # post)"
    and "err \<noteq> EOF"
    and "\<forall>b\<in>set pre. snd b = None"
    and "range_fis fs (concat (map fst pre)) [] = Returns rs"
  shows "processes fs = Returns ([], Some err)"
  using assms by (simp add: processes_def readdir_loop_prefix)

text \<open>The record of sshd is parsed from the first batch; the second call fails.\<close>

theorem processes_listing_error_witness:
  "range_fis (fixture [(''300'', True)] (ErrOS 5) [(300, ''300 (sshd) S 1 300 300 0 -1'')])
      [\<lparr>Name = ''300'', IsDir = True\<rparr>] [] =
     Returns [\<lparr>pid = 300, ppid = 1, state = 83, pgrp = 300, sid = 300, binary = ''sshd''\<rparr>] \<and>
   processes (fixture [(''300'', True)] (ErrOS 5) [(300, ''300 (sshd) S 1 300 300 0 -1'')]) =
     Returns ([], Some (ErrOS 5))"
proof -
  let ?fs = "fixture [(''300'', True)] (ErrOS 5) [(300, ''300 (sshd) S 1 300 300 0 -1'')]"
  let ?rs = "[\<lparr>pid = 300, ppid = 1, state = 83, pgrp = 300, sid = 300, binary = ''sshd''\<rparr>]"
  have o: "Open_proc ?fs = Inr ([([\<lparr>Name = ''300'', IsDir = True\<rparr>], None)] @ ([], Some (ErrOS 5)) # [])"
    by (simp add: fixture_def)
  have r: "range_fis ?fs (concat (map fst [([\<lparr>Name = ''300'', IsDir = True\<rparr>], None)])) [] = Returns ?rs"
    by code_simp
  have e: "ErrOS 5 \<noteq> EOF" by simp
  have n: "\<forall>b\<in>set [([\<lparr>Name = ''300'', IsDir = True\<rparr>], None :: error option)]. snd b = None" by simp
  from processes_listing_error [OF o e n r] r show ?thesis by simp
qed

end
